theory Spec2Isabelle
  imports Complex_Main "HOL-Library.Word" "HOL-Library.Signed_Division"
begin

section \<open>Values of the Go program\<close>

text \<open>
  A Go \<open>string\<close> and a \<open>[]byte\<close> are sequences of bytes; a \<^typ>\<open>char\<close> of HOL is one
  byte, so both are a \<^typ>\<open>string\<close> here and \<open>of_char\<close> reads the value of a byte.
  Go's \<open>int\<close>, \<open>int64\<close>, \<open>uint\<close>, \<open>uint64\<close> and \<open>uintptr\<close> are 64-bit words (the
  64-bit targets), \<open>zap.Level\<close> is an \<open>int32\<close>. Signed readings go through \<open>sint\<close>.
\<close>

type_synonym go_int = "64 word"
type_synonym go_int64 = "64 word"
type_synonym go_uint64 = "64 word"
type_synonym Level = "32 word"

text \<open>Go's \<open>%\<close> on \<open>int\<close>: the remainder of the division that truncates towards zero.\<close>

definition go_rem :: "go_int \<Rightarrow> go_int \<Rightarrow> go_int" where
  "go_rem a b = word_of_int (sint a smod sint b)"

text \<open>
  An \<open>error\<close> value is either made by this package from a message (\<open>errors.New\<close>,
  \<open>fmt.Errorf\<close>) or comes from outside it (a sink, a nested object).
\<close>

datatype error = errorString string | foreign_error nat

subsection \<open>The standard library functions the encoder calls\<close>

text \<open>The digits of \<open>strconv\<close>: \<open>"0123456789abcdef"\<close>.\<close>

definition digit_char :: "nat \<Rightarrow> char" where
  "digit_char d = ''0123456789abcdef'' ! d"

fun format_decimal :: "nat \<Rightarrow> string" where
  "format_decimal n =
     (if n < 10 then [digit_char n] else format_decimal (n div 10) @ [digit_char (n mod 10)])"

fun format_hex :: "nat \<Rightarrow> string" where
  "format_hex n =
     (if n < 16 then [digit_char n] else format_hex (n div 16) @ [digit_char (n mod 16)])"

declare format_decimal.simps [simp del] format_hex.simps [simp del]

text \<open>
  \<open>strconv.AppendInt(dst, i, 10)\<close>: a minus sign and the digits of \<open>uint64(-i)\<close> for a
  negative \<open>i\<close>, the digits of \<open>uint64(i)\<close> otherwise. \<open>%d\<close> of \<open>fmt.Sprintf\<close> prints an
  \<open>int\<close> the same way.
\<close>

definition AppendInt :: "string \<Rightarrow> go_int64 \<Rightarrow> string" where
  "AppendInt dst i =
     dst @ (if sint i < 0 then CHR ''-'' # format_decimal (unat (- i))
            else format_decimal (unat i))"

text \<open>\<open>strconv.AppendUint(dst, u, 10)\<close> and \<open>strconv.AppendUint(dst, u, 16)\<close>.\<close>

definition AppendUint10 :: "string \<Rightarrow> go_uint64 \<Rightarrow> string" where
  "AppendUint10 dst u = dst @ format_decimal (unat u)"

definition AppendUint16 :: "string \<Rightarrow> go_uint64 \<Rightarrow> string" where
  "AppendUint16 dst u = dst @ format_hex (unat u)"

text \<open>\<open>strconv.AppendBool\<close>.\<close>

definition AppendBool :: "string \<Rightarrow> bool \<Rightarrow> string" where
  "AppendBool dst b = dst @ (if b then ''true'' else ''false'')"

text \<open>The escape byte \<open>\x1b\<close> and the line feed \<open>\n\<close>.\<close>

definition ESC :: char where
  "ESC = CHR 0x1B"

definition LF :: char where
  "LF = CHR 0x0A"

section \<open>The encoder\<close>

record textEncoder =
  bytes :: string
  timeFmt :: string
  firstNested :: bool

text \<open>\<open>truncate\<close> of the source (the name is taken by the record package).\<close>

definition truncate_enc :: "textEncoder \<Rightarrow> textEncoder" where
  "truncate_enc enc = enc\<lparr>bytes := []\<rparr>"

text \<open>The loop of \<open>addKey\<close> that adds up the bytes of the key in an \<open>int\<close>.\<close>

definition key_sum :: "string \<Rightarrow> go_int" where
  "key_sum key = foldl (\<lambda>sum c. sum + of_char c) 0 key"

definition key_color :: "string \<Rightarrow> go_int" where
  "key_color key = go_rem (key_sum key) 7 + 1"

text \<open>\<open>fmt.Sprintf("\x1b[3%d;1m%s\x1b[0m", color, key)\<close>.\<close>

definition Sprintf_key :: "go_int \<Rightarrow> string \<Rightarrow> string" where
  "Sprintf_key color key =
     [ESC] @ ''[3'' @ AppendInt [] color @ '';1m'' @ key @ [ESC] @ ''[0m''"

definition addKey :: "string \<Rightarrow> textEncoder \<Rightarrow> textEncoder" where
  "addKey key enc =
     (let lastIdx = int (length (bytes enc)) - 1;
          enc1 = (if lastIdx \<ge> 0 \<and> \<not> firstNested enc
                  then enc\<lparr>bytes := bytes enc @ '' ''\<rparr>
                  else enc\<lparr>firstNested := False\<rparr>);
          color = key_color key;
          enc2 = enc1\<lparr>bytes := bytes enc1 @ Sprintf_key color key\<rparr>
      in enc2\<lparr>bytes := bytes enc2 @ ''=''\<rparr>)"


subsection \<open>Library functions that stay abstract\<close>

text \<open>
  Three functions of the standard library are taken as parameters, since nothing in the
  encoder depends on what they print: \<open>strconv.AppendFloat(dst, val, 'f', -1, 64)\<close>
  (the text it appends for the \<open>float64\<close> with the given bits),
  \<open>fmt.Sprintf("%+v", obj)\<close> and \<open>time.Time.AppendFormat\<close> (the text it appends for a
  time and a layout).
\<close>

record ('o, 't) stdlib =
  AppendFloat :: "64 word \<Rightarrow> string"
  Sprintf_plus_v :: "'o \<Rightarrow> string"
  AppendFormat :: "'t \<Rightarrow> string \<Rightarrow> string"

subsection \<open>Field accumulation\<close>

definition AddString :: "string \<Rightarrow> string \<Rightarrow> textEncoder \<Rightarrow> textEncoder" where
  "AddString key val enc = (let enc1 = addKey key enc in enc1\<lparr>bytes := bytes enc1 @ val\<rparr>)"

definition AddBool :: "string \<Rightarrow> bool \<Rightarrow> textEncoder \<Rightarrow> textEncoder" where
  "AddBool key val enc =
     (let enc1 = addKey key enc in enc1\<lparr>bytes := AppendBool (bytes enc1) val\<rparr>)"

definition AddInt64 :: "string \<Rightarrow> go_int64 \<Rightarrow> textEncoder \<Rightarrow> textEncoder" where
  "AddInt64 key val enc =
     (let enc1 = addKey key enc in enc1\<lparr>bytes := AppendInt (bytes enc1) val\<rparr>)"

text \<open>\<open>int64(val)\<close> of an \<open>int\<close> keeps the 64 bits.\<close>

definition AddInt :: "string \<Rightarrow> go_int \<Rightarrow> textEncoder \<Rightarrow> textEncoder" where
  "AddInt key val enc = AddInt64 key val enc"

definition AddUint64 :: "string \<Rightarrow> go_uint64 \<Rightarrow> textEncoder \<Rightarrow> textEncoder" where
  "AddUint64 key val enc =
     (let enc1 = addKey key enc in enc1\<lparr>bytes := AppendUint10 (bytes enc1) val\<rparr>)"

definition AddUint :: "string \<Rightarrow> go_uint64 \<Rightarrow> textEncoder \<Rightarrow> textEncoder" where
  "AddUint key val enc = AddUint64 key val enc"

definition AddUintptr :: "string \<Rightarrow> go_uint64 \<Rightarrow> textEncoder \<Rightarrow> textEncoder" where
  "AddUintptr key val enc =
     (let enc1 = addKey key enc;
          enc2 = enc1\<lparr>bytes := bytes enc1 @ ''0x''\<rparr>
      in enc2\<lparr>bytes := AppendUint16 (bytes enc2) val\<rparr>)"

definition AddFloat64 ::
  "('o, 't) stdlib \<Rightarrow> string \<Rightarrow> 64 word \<Rightarrow> textEncoder \<Rightarrow> textEncoder" where
  "AddFloat64 L key val enc =
     (let enc1 = addKey key enc in enc1\<lparr>bytes := bytes enc1 @ AppendFloat L val\<rparr>)"

text \<open>
  \<open>obj.MarshalLog(enc)\<close> works on the encoder it is given through its pointer and
  returns an error or nil: a function from the encoder to the encoder it leaves and
  the error.
\<close>

type_synonym MarshalLog = "textEncoder \<Rightarrow> textEncoder \<times> error option"

definition AddMarshaler ::
  "string \<Rightarrow> MarshalLog \<Rightarrow> textEncoder \<Rightarrow> textEncoder \<times> error option" where
  "AddMarshaler key obj enc =
     (let enc1 = addKey key enc;
          enc2 = enc1\<lparr>firstNested := True\<rparr>;
          enc3 = enc2\<lparr>bytes := bytes enc2 @ ''{''\<rparr>;
          (enc4, err) = obj enc3;
          enc5 = enc4\<lparr>bytes := bytes enc4 @ ''}''\<rparr>;
          enc6 = enc5\<lparr>firstNested := False\<rparr>
      in (enc6, err))"

definition AddObject ::
  "('o, 't) stdlib \<Rightarrow> string \<Rightarrow> 'o \<Rightarrow> textEncoder \<Rightarrow> textEncoder \<times> error option" where
  "AddObject L key obj enc = (AddString key (Sprintf_plus_v L obj) enc, None)"

subsection \<open>What a nested object can do with the encoder\<close>

text \<open>
  A \<open>zap.LogMarshaler\<close> receives the encoder as a \<open>zap.KeyValue\<close>, whose methods are
  the accumulation operations: all it can do to the encoder is call them, one after
  the other, and return. One run of \<open>MarshalLog\<close> is therefore the list of the calls it
  makes, where a call of \<open>AddMarshaler\<close> carries the run of the object nested in it,
  and the error it returns.
\<close>

datatype 'o KeyValue_call =
    Call_AddBool string bool
  | Call_AddFloat64 string "64 word"
  | Call_AddInt string go_int
  | Call_AddInt64 string go_int64
  | Call_AddUint string go_uint64
  | Call_AddUint64 string go_uint64
  | Call_AddUintptr string go_uint64
  | Call_AddMarshaler string "'o KeyValue_call list" "error option"
  | Call_AddObject string 'o
  | Call_AddString string string

lemma AddMarshaler_cong [fundef_cong]:
  "key = key' \<Longrightarrow> enc = enc' \<Longrightarrow> (\<And>e. obj e = obj' e) \<Longrightarrow>
   AddMarshaler key obj enc = AddMarshaler key' obj' enc'"
  by (simp add: AddMarshaler_def)

fun invoke :: "('o, 't) stdlib \<Rightarrow> 'o KeyValue_call \<Rightarrow> textEncoder \<Rightarrow> textEncoder \<times> error option"
  and invoke_all :: "('o, 't) stdlib \<Rightarrow> 'o KeyValue_call list \<Rightarrow> textEncoder \<Rightarrow> textEncoder"
where
  "invoke L (Call_AddBool key val) enc = (AddBool key val enc, None)"
| "invoke L (Call_AddFloat64 key val) enc = (AddFloat64 L key val enc, None)"
| "invoke L (Call_AddInt key val) enc = (AddInt key val enc, None)"
| "invoke L (Call_AddInt64 key val) enc = (AddInt64 key val enc, None)"
| "invoke L (Call_AddUint key val) enc = (AddUint key val enc, None)"
| "invoke L (Call_AddUint64 key val) enc = (AddUint64 key val enc, None)"
| "invoke L (Call_AddUintptr key val) enc = (AddUintptr key val enc, None)"
| "invoke L (Call_AddMarshaler key cs r) enc =
     AddMarshaler key (\<lambda>e. (invoke_all L cs e, r)) enc"
| "invoke L (Call_AddObject key obj) enc = AddObject L key obj enc"
| "invoke L (Call_AddString key val) enc = (AddString key val enc, None)"
| "invoke_all L [] enc = enc"
| "invoke_all L (c # cs) enc = invoke_all L cs (fst (invoke L c enc))"


subsection \<open>Padding a message\<close>

text \<open>
  \<open>fmt.Sprintf("%-25s", msg)\<close> writes \<open>msg\<close> and then \<open>25 - utf8.RuneCountInString(msg)\<close>
  spaces when that number is positive. \<open>RuneCountInString\<close> walks the bytes: a byte
  below \<open>0x80\<close> is one rune; a leading byte of a well-formed sequence of 2, 3 or 4
  bytes is one rune together with its continuation bytes; any other byte counts as one
  rune by itself. \<open>utf8_size\<close> is the size the table \<open>first\<close> gives for a leading byte
  (0 for the bytes that cannot lead), \<open>accept_lo\<close> and \<open>accept_hi\<close> the range
  \<open>acceptRanges\<close> gives for the second byte.
\<close>

definition utf8_size :: "nat \<Rightarrow> nat" where
  "utf8_size b =
     (if b < 0x80 then 1 else if b < 0xC2 then 0 else if b < 0xE0 then 2
      else if b < 0xF0 then 3 else if b < 0xF5 then 4 else 0)"

definition accept_lo :: "nat \<Rightarrow> nat" where
  "accept_lo b = (if b = 0xE0 then 0xA0 else if b = 0xF0 then 0x90 else 0x80)"

definition accept_hi :: "nat \<Rightarrow> nat" where
  "accept_hi b = (if b = 0xED then 0x9F else if b = 0xF4 then 0x8F else 0xBF)"

definition continuation :: "char \<Rightarrow> bool" where
  "continuation c = (0x80 \<le> (of_char c :: nat) \<and> (of_char c :: nat) \<le> 0xBF)"

text \<open>The number of bytes the loop advances at the byte \<open>c\<close>, followed by \<open>rest\<close>.\<close>

definition rune_width :: "char \<Rightarrow> string \<Rightarrow> nat" where
  "rune_width c rest =
     (let b = (of_char c :: nat); size = utf8_size b in
      if b < 0x80 then 1
      else if size = 0 then 1
      else if size > 1 + length rest then 1
      else if (of_char (rest ! 0) :: nat) < accept_lo b \<or> accept_hi b < of_char (rest ! 0) then 1
      else if size = 2 then 2
      else if \<not> continuation (rest ! 1) then 1
      else if size = 3 then 3
      else if \<not> continuation (rest ! 2) then 1
      else 4)"

fun RuneCountInString :: "string \<Rightarrow> nat" where
  "RuneCountInString [] = 0"
| "RuneCountInString (c # rest) = Suc (RuneCountInString (drop (rune_width c rest - 1) rest))"

definition Sprintf_pad25 :: "string \<Rightarrow> string" where
  "Sprintf_pad25 msg = msg @ replicate (25 - RuneCountInString msg) CHR '' ''"

subsection \<open>The parts of a line\<close>

text \<open>
  The constants of \<open>zap.Level\<close> are declared in the logging library, not in this
  package: they are a parameter. A Go \<open>switch\<close> needs its case constants distinct.
\<close>

record zap_levels =
  DebugLevel :: Level
  InfoLevel :: Level
  WarnLevel :: Level
  ErrorLevel :: Level
  PanicLevel :: Level
  FatalLevel :: Level

definition levels_distinct :: "zap_levels \<Rightarrow> bool" where
  "levels_distinct Z =
     distinct [DebugLevel Z, InfoLevel Z, WarnLevel Z, ErrorLevel Z, PanicLevel Z, FatalLevel Z]"

text \<open>The constants as the library declares them: \<open>DebugLevel Level = iota - 1\<close> and on.\<close>

definition zap :: zap_levels where
  "zap = \<lparr>DebugLevel = -1, InfoLevel = 0, WarnLevel = 1, ErrorLevel = 2,
          PanicLevel = 3, FatalLevel = 4\<rparr>"

definition addLevel :: "zap_levels \<Rightarrow> textEncoder \<Rightarrow> Level \<Rightarrow> textEncoder" where
  "addLevel Z final lvl =
     (if lvl = DebugLevel Z then
        final\<lparr>bytes := bytes final @ [ESC] @ ''[32;1m[DEBG]'' @ [ESC] @ ''[0m''\<rparr>
      else if lvl = InfoLevel Z then
        final\<lparr>bytes := bytes final @ [ESC] @ ''[34;1m[INFO]'' @ [ESC] @ ''[0m''\<rparr>
      else if lvl = WarnLevel Z then
        final\<lparr>bytes := bytes final @ [ESC] @ ''[33;1m[WARN]'' @ [ESC] @ ''[0m''\<rparr>
      else if lvl = ErrorLevel Z then
        final\<lparr>bytes := bytes final @ [ESC] @ ''[31;1m[ERRO]'' @ [ESC] @ ''[0m''\<rparr>
      else if lvl = PanicLevel Z then
        final\<lparr>bytes := bytes final @ [ESC] @ ''[31;1m[PANC]'' @ [ESC] @ ''[0m''\<rparr>
      else if lvl = FatalLevel Z then
        final\<lparr>bytes := bytes final @ [ESC] @ ''[31;1m[FATA]'' @ [ESC] @ ''[0m''\<rparr>
      else final\<lparr>bytes := AppendInt (bytes final) (scast lvl)\<rparr>)"

definition addTime ::
  "('o, 't) stdlib \<Rightarrow> textEncoder \<Rightarrow> textEncoder \<Rightarrow> 't \<Rightarrow> textEncoder" where
  "addTime L enc final t =
     (if timeFmt enc = [] then final
      else let final1 = final\<lparr>bytes := bytes final @ '' ''\<rparr>
           in final1\<lparr>bytes := bytes final1 @ AppendFormat L t (timeFmt enc)\<rparr>)"

definition addMessage :: "textEncoder \<Rightarrow> string \<Rightarrow> textEncoder" where
  "addMessage final msg =
     (if msg \<noteq> [] then
        let final1 = final\<lparr>bytes := bytes final @ '' ''\<rparr>
        in final1\<lparr>bytes := bytes final1 @ Sprintf_pad25 msg\<rparr>
      else final)"

subsection \<open>Options\<close>

type_synonym TextOption = "textEncoder \<Rightarrow> textEncoder"

definition TextTimeFormat :: "string \<Rightarrow> TextOption" where
  "TextTimeFormat layout = (\<lambda>enc. enc\<lparr>timeFmt := layout\<rparr>)"

definition TextNoTime :: TextOption where
  "TextNoTime = TextTimeFormat []"

definition RFC3339 :: string where
  "RFC3339 = ''2006-01-02T15:04:05Z07:00''"

section \<open>Encoders behind pointers, and the pool\<close>

text \<open>
  The package works on \<open>*textEncoder\<close>: an encoder is reached through a pointer, and
  \<open>textPool\<close> holds pointers. The store is the list of the encoders allocated so far,
  a pointer is an index into it, and the pool is the list of the pointers put into it.
  No function of the package hands the slice \<open>bytes\<close> of one encoder to another
  encoder (\<open>append(dst, src...)\<close> copies the bytes of \<open>src\<close>), so an encoder owns its
  bytes; the capacity of the slice is not observable and is left out.
\<close>

record world =
  heap :: "textEncoder list"
  pool :: "nat list"

definition deref :: "world \<Rightarrow> nat \<Rightarrow> textEncoder" where
  "deref w p = heap w ! p"

definition assign :: "nat \<Rightarrow> (textEncoder \<Rightarrow> textEncoder) \<Rightarrow> world \<Rightarrow> world" where
  "assign p f w = w\<lparr>heap := (heap w)[p := f (heap w ! p)]\<rparr>"

text \<open>
  \<open>sync.Pool.Get\<close> selects an arbitrary item of the pool and removes it, or ignores the
  pool and calls \<open>New\<close>. The choice is the argument \<open>ch\<close>: \<open>Some i\<close> takes the item at
  position \<open>i\<close> when there is one, anything else allocates a new encoder.
\<close>

definition textPool_New :: "world \<Rightarrow> nat \<times> world" where
  "textPool_New w =
     (length (heap w),
      w\<lparr>heap := heap w @ [\<lparr>bytes = [], timeFmt = [], firstNested = False\<rparr>]\<rparr>)"

definition textPool_Get :: "nat option \<Rightarrow> world \<Rightarrow> nat \<times> world" where
  "textPool_Get ch w =
     (case ch of
        None \<Rightarrow> textPool_New w
      | Some i \<Rightarrow>
          if i < length (pool w)
          then (pool w ! i, w\<lparr>pool := take i (pool w) @ drop (Suc i) (pool w)\<rparr>)
          else textPool_New w)"

definition textPool_Put :: "nat \<Rightarrow> world \<Rightarrow> world" where
  "textPool_Put p w = w\<lparr>pool := p # pool w\<rparr>"

definition Free :: "nat \<Rightarrow> world \<Rightarrow> world" where
  "Free enc w = textPool_Put enc w"

definition NewColorEncoder :: "nat option \<Rightarrow> TextOption list \<Rightarrow> world \<Rightarrow> nat \<times> world" where
  "NewColorEncoder ch options w =
     (let (enc, w1) = textPool_Get ch w;
          w2 = assign enc truncate_enc w1;
          w3 = assign enc (\<lambda>e. e\<lparr>timeFmt := RFC3339\<rparr>) w2
      in (enc, fold (\<lambda>opt. assign enc opt) options w3))"

definition Clone :: "nat option \<Rightarrow> nat \<Rightarrow> world \<Rightarrow> nat \<times> world" where
  "Clone ch enc w =
     (let (clone, w1) = textPool_Get ch w;
          w2 = assign clone truncate_enc w1;
          w3 = assign clone (\<lambda>c. c\<lparr>bytes := bytes c @ bytes (deref w2 enc)\<rparr>) w2;
          w4 = assign clone (\<lambda>c. c\<lparr>timeFmt := timeFmt (deref w3 enc)\<rparr>) w3;
          w5 = assign clone (\<lambda>c. c\<lparr>firstNested := firstNested (deref w4 enc)\<rparr>) w4
      in (clone, w5))"

text \<open>
  An \<open>io.Writer\<close> has a state of its own; \<open>Write\<close> takes the bytes and returns the
  count and the error. A nil sink is \<open>None\<close>.
\<close>

type_synonym 's Writer = "string \<Rightarrow> 's \<Rightarrow> (go_int \<times> error option) \<times> 's"

text \<open>\<open>fmt.Errorf("incomplete write: only wrote %v of %v bytes", n, expectedBytes)\<close>.\<close>

definition incomplete_write :: "go_int \<Rightarrow> go_int \<Rightarrow> error" where
  "incomplete_write n expectedBytes =
     errorString (''incomplete write: only wrote '' @ AppendInt [] n @ '' of ''
                  @ AppendInt [] expectedBytes @ '' bytes'')"

definition WriteEntry ::
  "('o, 't) stdlib \<Rightarrow> zap_levels \<Rightarrow> nat option \<Rightarrow> nat \<Rightarrow> 's Writer option \<Rightarrow> string \<Rightarrow> Level \<Rightarrow> 't
   \<Rightarrow> world \<times> 's \<Rightarrow> error option \<times> world \<times> 's" where
  "WriteEntry L Z ch enc sink msg lvl t ws =
     (case sink of
        None \<Rightarrow> (Some (errorString ''NIL SINK ERR - wut''), ws)
      | Some write \<Rightarrow>
          let (final, w1) = textPool_Get ch (fst ws);
              w2 = assign final truncate_enc w1;
              w3 = assign final (\<lambda>f. addLevel Z f lvl) w2;
              w4 = assign final (\<lambda>f. addTime L (deref w3 enc) f t) w3;
              w5 = assign final (\<lambda>f. addMessage f msg) w4;
              w6 = (if length (bytes (deref w5 enc)) > 0 then
                      let w5a = assign final (\<lambda>f. f\<lparr>bytes := bytes f @ '' ''\<rparr>) w5
                      in assign final (\<lambda>f. f\<lparr>bytes := bytes f @ bytes (deref w5a enc)\<rparr>) w5a
                    else w5);
              w7 = assign final (\<lambda>f. f\<lparr>bytes := bytes f @ [LF]\<rparr>) w6;
              expectedBytes = (of_nat (length (bytes (deref w7 final))) :: go_int);
              ((n, err), s') = write (bytes (deref w7 final)) (snd ws);
              w8 = Free final w7
          in if err \<noteq> None then (err, w8, s')
             else if n \<noteq> expectedBytes then (Some (incomplete_write n expectedBytes), w8, s')
             else (None, w8, s'))"

section \<open>The text the specification describes\<close>

subsection \<open>Fields\<close>

text \<open>
  The separator the specification asks for before a field: one space, unless the buffer
  is empty or the field is the first of a nested frame.
\<close>

definition separator :: "textEncoder \<Rightarrow> string" where
  "separator enc = (if bytes enc \<noteq> [] \<and> \<not> firstNested enc then '' '' else [])"

text \<open>The key as the encoder prints it, with the \<open>=\<close> that follows it.\<close>

definition key_text :: "string \<Rightarrow> string" where
  "key_text key = Sprintf_key (key_color key) key @ ''=''"

text \<open>
  The colour index in the words of the specification: the sum of the byte values of
  the key, modulo 7, plus 1; and the key wrapped in the escape sequences for it.
\<close>

definition color_index :: "string \<Rightarrow> nat" where
  "color_index key = sum_list (map of_char key) mod 7 + 1"

definition colored_key :: "string \<Rightarrow> string" where
  "colored_key key =
     [ESC] @ ''[3'' @ [digit_char (color_index key)] @ '';1m'' @ key @ [ESC] @ ''[0m''"

text \<open>
  The key of a call, the text of its value, and the text of a sequence of fields: the
  fields in order, one space between two neighbours, a nested object as its fields
  between braces.
\<close>

fun call_key :: "'o KeyValue_call \<Rightarrow> string" where
  "call_key (Call_AddBool key val) = key"
| "call_key (Call_AddFloat64 key val) = key"
| "call_key (Call_AddInt key val) = key"
| "call_key (Call_AddInt64 key val) = key"
| "call_key (Call_AddUint key val) = key"
| "call_key (Call_AddUint64 key val) = key"
| "call_key (Call_AddUintptr key val) = key"
| "call_key (Call_AddMarshaler key cs r) = key"
| "call_key (Call_AddObject key obj) = key"
| "call_key (Call_AddString key val) = key"

fun value_text :: "('o, 't) stdlib \<Rightarrow> 'o KeyValue_call \<Rightarrow> string"
  and fields_text :: "('o, 't) stdlib \<Rightarrow> 'o KeyValue_call list \<Rightarrow> string"
where
  "value_text L (Call_AddBool key val) = (if val then ''true'' else ''false'')"
| "value_text L (Call_AddFloat64 key val) = AppendFloat L val"
| "value_text L (Call_AddInt key val) = AppendInt [] val"
| "value_text L (Call_AddInt64 key val) = AppendInt [] val"
| "value_text L (Call_AddUint key val) = AppendUint10 [] val"
| "value_text L (Call_AddUint64 key val) = AppendUint10 [] val"
| "value_text L (Call_AddUintptr key val) = ''0x'' @ AppendUint16 [] val"
| "value_text L (Call_AddMarshaler key cs r) = ''{'' @ fields_text L cs @ ''}''"
| "value_text L (Call_AddObject key obj) = Sprintf_plus_v L obj"
| "value_text L (Call_AddString key val) = val"
| "fields_text L [] = []"
| "fields_text L [c] = key_text (call_key c) @ value_text L c"
| "fields_text L (c # d # cs) =
     key_text (call_key c) @ value_text L c @ '' '' @ fields_text L (d # cs)"

text \<open>The encoder after the fields \<open>cs\<close> have been accumulated on \<open>enc\<close>.\<close>

definition accumulated :: "('o, 't) stdlib \<Rightarrow> 'o KeyValue_call list \<Rightarrow> textEncoder \<Rightarrow> textEncoder" where
  "accumulated L cs enc =
     (if cs = [] then enc
      else \<lparr>bytes = bytes enc @ separator enc @ fields_text L cs, timeFmt = timeFmt enc,
            firstNested = False\<rparr>)"

subsection \<open>The line of an entry\<close>

text \<open>The level tag in the words of the specification, with the colours of the code.\<close>

definition level_tag :: "zap_levels \<Rightarrow> Level \<Rightarrow> string" where
  "level_tag Z lvl =
     (if lvl = DebugLevel Z then [ESC] @ ''[32;1m'' @ ''[DEBG]'' @ [ESC] @ ''[0m''
      else if lvl = InfoLevel Z then [ESC] @ ''[34;1m'' @ ''[INFO]'' @ [ESC] @ ''[0m''
      else if lvl = WarnLevel Z then [ESC] @ ''[33;1m'' @ ''[WARN]'' @ [ESC] @ ''[0m''
      else if lvl = ErrorLevel Z then [ESC] @ ''[31;1m'' @ ''[ERRO]'' @ [ESC] @ ''[0m''
      else if lvl = PanicLevel Z then [ESC] @ ''[31;1m'' @ ''[PANC]'' @ [ESC] @ ''[0m''
      else if lvl = FatalLevel Z then [ESC] @ ''[31;1m'' @ ''[FATA]'' @ [ESC] @ ''[0m''
      else AppendInt [] (scast lvl))"

text \<open>
  The line in the words of the specification: the level tag; a space and the time when
  a layout is set; a space and the message padded with spaces to 25 characters when
  the message is not empty; a space and the accumulated fields when there are any; a
  line feed.
\<close>

definition entry_line ::
  "('o, 't) stdlib \<Rightarrow> zap_levels \<Rightarrow> textEncoder \<Rightarrow> string \<Rightarrow> Level \<Rightarrow> 't \<Rightarrow> string" where
  "entry_line L Z enc msg lvl t =
     level_tag Z lvl
     @ (if timeFmt enc = [] then [] else '' '' @ AppendFormat L t (timeFmt enc))
     @ (if msg = [] then []
        else '' '' @ msg @ replicate (25 - RuneCountInString msg) CHR '' '')
     @ (if bytes enc = [] then [] else '' '' @ bytes enc)
     @ [LF]"

text \<open>What \<open>WriteEntry\<close> returns once the sink has answered \<open>(n, err)\<close> to the line.\<close>

definition write_result :: "go_int \<Rightarrow> error option \<Rightarrow> string \<Rightarrow> error option" where
  "write_result n err line =
     (if err \<noteq> None then err
      else if n \<noteq> of_nat (length line) then Some (incomplete_write n (of_nat (length line)))
      else None)"

text \<open>
  Two sinks: one that keeps what it is given and reports all of it written, and one
  that reports that it wrote nothing.
\<close>

definition buffer_Write :: "string Writer" where
  "buffer_Write p s = ((of_nat (length p), None), s @ p)"

definition short_Write :: "string Writer" where
  "short_Write p s = ((0, None), s)"

text \<open>
  In \<open>rune_width\<close>, the second byte of a sequence is in the range its leading byte
  accepts.
\<close>

definition second_ok :: "char \<Rightarrow> string \<Rightarrow> bool" where
  "second_ok c rest =
     (accept_lo (of_char c) \<le> (of_char (rest ! 0) :: nat)
      \<and> (of_char (rest ! 0) :: nat) \<le> accept_hi (of_char c))"

text \<open>
  Characters counted without the decoder: the UTF-8 encoding of a sequence of Unicode
  scalar values (code points below \<open>0x110000\<close> outside the surrogates), one to four
  bytes for each.
\<close>

definition valid_scalar :: "nat \<Rightarrow> bool" where
  "valid_scalar cp = (cp < 0xD800 \<or> 0xE000 \<le> cp \<and> cp < 0x110000)"

definition utf8_char :: "nat \<Rightarrow> string" where
  "utf8_char cp =
     (if cp < 0x80 then [char_of cp]
      else if cp < 0x800 then [char_of (0xC0 + cp div 64), char_of (0x80 + cp mod 64)]
      else if cp < 0x10000 then
        [char_of (0xE0 + cp div 4096), char_of (0x80 + cp div 64 mod 64),
         char_of (0x80 + cp mod 64)]
      else
        [char_of (0xF0 + cp div 262144), char_of (0x80 + cp div 4096 mod 64),
         char_of (0x80 + cp div 64 mod 64), char_of (0x80 + cp mod 64)])"

definition utf8_encode :: "nat list \<Rightarrow> string" where
  "utf8_encode cps = concat (map utf8_char cps)"

subsection \<open>Encoders in use\<close>

text \<open>
  An encoder in use: its pointer is allocated and is not in the pool. The pool is in
  order when it holds allocated pointers, each once (a pointer gets there twice only
  when it is released twice).
\<close>

definition live :: "world \<Rightarrow> nat \<Rightarrow> bool" where
  "live w p = (p < length (heap w) \<and> p \<notin> set (pool w))"

definition pool_valid :: "world \<Rightarrow> bool" where
  "pool_valid w = (distinct (pool w) \<and> list_all (\<lambda>p. p < length (heap w)) (pool w))"

text \<open>
  The operations of an encoder, for a caller that holds its pointer: an accumulation
  call, \<open>Clone\<close>, \<open>WriteEntry\<close> and \<open>Free\<close>; and a run of operations, each on the
  encoder it names.
\<close>

datatype ('o, 't, 's) operation =
    Op_Add "'o KeyValue_call"
  | Op_Clone "nat option"
  | Op_WriteEntry "nat option" "'s Writer option" string Level 't
  | Op_Free

fun perform ::
  "('o, 't) stdlib \<Rightarrow> zap_levels \<Rightarrow> nat \<Rightarrow> ('o, 't, 's) operation \<Rightarrow> world \<times> 's \<Rightarrow> world \<times> 's"
where
  "perform L Z enc (Op_Add c) ws = (assign enc (\<lambda>e. fst (invoke L c e)) (fst ws), snd ws)"
| "perform L Z enc (Op_Clone ch) ws = (snd (Clone ch enc (fst ws)), snd ws)"
| "perform L Z enc (Op_WriteEntry ch sink msg lvl t) ws =
     snd (WriteEntry L Z ch enc sink msg lvl t ws)"
| "perform L Z enc Op_Free ws = (Free enc (fst ws), snd ws)"

fun run ::
  "('o, 't) stdlib \<Rightarrow> zap_levels \<Rightarrow> (nat \<times> ('o, 't, 's) operation) list \<Rightarrow> world \<times> 's
   \<Rightarrow> world \<times> 's"
where
  "run L Z [] ws = ws"
| "run L Z ((enc, op) # rest) ws = run L Z rest (perform L Z enc op ws)"

text \<open>
  What a run does to the encoder \<open>b\<close> when nothing but the accumulation calls made on
  \<open>b\<close> itself counts.
\<close>

fun own_effect ::
  "('o, 't) stdlib \<Rightarrow> nat \<Rightarrow> (nat \<times> ('o, 't, 's) operation) list \<Rightarrow> textEncoder \<Rightarrow> textEncoder"
where
  "own_effect L b [] e = e"
| "own_effect L b ((enc, Op_Add c) # rest) e =
     own_effect L b rest (if enc = b then fst (invoke L c e) else e)"
| "own_effect L b ((enc, op) # rest) e = own_effect L b rest e"

subsection \<open>Values to run the definitions on\<close>

text \<open>
  A library in which objects are strings that print as themselves and a time is the
  text it formats to; an encoder as \<open>NewColorEncoder\<close> leaves it; a world with that
  encoder in use and an empty pool; a run of operations on two encoders.
\<close>

definition sample_lib :: "(string, string) stdlib" where
  "sample_lib =
     \<lparr>AppendFloat = (\<lambda>bits. ''1.5''), Sprintf_plus_v = (\<lambda>obj. obj),
      AppendFormat = (\<lambda>t layout. t)\<rparr>"

definition empty_encoder :: textEncoder where
  "empty_encoder = \<lparr>bytes = [], timeFmt = RFC3339, firstNested = False\<rparr>"

definition sample_world :: world where
  "sample_world = \<lparr>heap = [empty_encoder], pool = []\<rparr>"

definition sample_ops :: "(nat \<times> (string, string, string) operation) list" where
  "sample_ops =
     [(0, Op_Add (Call_AddString ''user'' ''alice'')),
      (1, Op_Add (Call_AddBool ''b'' True)),
      (0, Op_WriteEntry (Some 0) (Some buffer_Write) ''login'' 0 ''now''),
      (0, Op_Clone None),
      (0, Op_Free),
      (1, Op_Clone (Some 0))]"

section \<open>Properties of the field encoder\<close>

subsection \<open>The key\<close>

lemma bytes_addKey: "bytes (addKey key enc) = bytes enc @ separator enc @ key_text key"
  by (simp add: addKey_def separator_def key_text_def Let_def)

lemma firstNested_addKey: "firstNested (addKey key enc) = False"
  by (simp add: addKey_def Let_def)

lemma timeFmt_addKey: "timeFmt (addKey key enc) = timeFmt enc"
  by (simp add: addKey_def Let_def)

lemmas addKey_fields = bytes_addKey firstNested_addKey timeFmt_addKey

lemma key_text_nonempty: "key_text key \<noteq> []"
  by (simp add: key_text_def)

lemma foldl_key_sum:
  "foldl (\<lambda>sum c. sum + of_char c) (a :: go_int) key = a + of_nat (sum_list (map of_char key))"
  by (induction key arbitrary: a) (simp_all add: of_nat_of_char add.assoc)

lemma key_sum_of_nat: "key_sum key = of_nat (sum_list (map of_char key))"
  by (simp add: key_sum_def foldl_key_sum)

lemma of_char_le_255: "(of_char c :: nat) \<le> 255"
  using nat_of_char_less_256 [of c] by linarith

lemma sum_list_of_char_le: "sum_list (map of_char key) \<le> 255 * length key"
proof (induction key)
  case Nil
  show ?case by simp
next
  case (Cons c key)
  have "(of_char c :: nat) \<le> 255" by (rule of_char_le_255)
  with Cons show ?case by simp
qed

lemma sint_of_nat_small:
  assumes "n < 2 ^ 63"
  shows "sint (of_nat n :: 64 word) = int n"
proof -
  have "signed_take_bit 63 (int n) = int n"
    using assms by (intro signed_take_bit_int_eq_self) simp_all
  then show ?thesis by (simp add: signed_of_nat)
qed

lemma unat_of_nat_small:
  assumes "n < 2 ^ 63"
  shows "unat (of_nat n :: 64 word) = n"
  using assms by (simp add: unat_of_nat take_bit_nat_eq_self)

lemma smod_of_nat: "int n smod 7 = int (n mod 7)"
  by (cases "n = 0") (simp_all add: signed_modulo_int_def zmod_int)

lemma key_color_small:
  assumes "length key < 2 ^ 55"
  shows "key_color key = of_nat (color_index key)"
proof -
  let ?S = "sum_list (map of_char key) :: nat"
  have "?S \<le> 255 * length key" by (rule sum_list_of_char_le)
  also have "\<dots> < 2 ^ 63" using assms by simp
  finally have S: "?S < 2 ^ 63" .
  then have "sint (key_sum key) = int ?S"
    by (simp add: key_sum_of_nat sint_of_nat_small)
  then have "go_rem (key_sum key) 7 = word_of_int (int ?S smod 7)"
    by (simp add: go_rem_def)
  also have "int ?S smod 7 = int (?S mod 7)"
    by (rule smod_of_nat)
  finally show ?thesis
    by (simp add: key_color_def color_index_def)
qed

lemma AppendInt_digit:
  assumes "n < 10"
  shows "AppendInt dst (of_nat n) = dst @ [digit_char n]"
proof -
  from assms have n: "n < 2 ^ 63" by simp
  then have "sint (of_nat n :: 64 word) = int n" by (rule sint_of_nat_small)
  moreover have "unat (of_nat n :: 64 word) = n" using n by (rule unat_of_nat_small)
  ultimately show ?thesis using assms
    by (simp add: AppendInt_def format_decimal.simps)
qed

lemma Sprintf_key_small:
  assumes "length key < 2 ^ 55"
  shows "Sprintf_key (key_color key) key = colored_key key"
proof -
  have "color_index key < 10" by (simp add: color_index_def) 
  then show ?thesis
    using assms by (simp add: Sprintf_key_def colored_key_def key_color_small AppendInt_digit)
qed

subsection \<open>The accumulation operations\<close>

lemma AppendInt_dst: "AppendInt dst i = dst @ AppendInt [] i"
  by (simp add: AppendInt_def)

lemma AppendUint10_dst: "AppendUint10 dst u = dst @ AppendUint10 [] u"
  by (simp add: AppendUint10_def)

lemma AppendUint16_dst: "AppendUint16 dst u = dst @ AppendUint16 [] u"
  by (simp add: AppendUint16_def)

lemma AddString_fields:
  "bytes (AddString key val enc) = bytes enc @ separator enc @ key_text key @ val"
  "firstNested (AddString key val enc) = False"
  "timeFmt (AddString key val enc) = timeFmt enc"
  by (simp_all add: AddString_def Let_def addKey_fields)

lemma AddBool_fields:
  "bytes (AddBool key val enc) =
     bytes enc @ separator enc @ key_text key @ (if val then ''true'' else ''false'')"
  "firstNested (AddBool key val enc) = False"
  "timeFmt (AddBool key val enc) = timeFmt enc"
  by (simp_all add: AddBool_def AppendBool_def Let_def addKey_fields)

lemma AddInt64_fields:
  "bytes (AddInt64 key val enc) = bytes enc @ separator enc @ key_text key @ AppendInt [] val"
  "firstNested (AddInt64 key val enc) = False"
  "timeFmt (AddInt64 key val enc) = timeFmt enc"
  by (simp_all add: AddInt64_def Let_def addKey_fields AppendInt_dst [of "_ @ _"])

lemma AddUint64_fields:
  "bytes (AddUint64 key val enc) =
     bytes enc @ separator enc @ key_text key @ AppendUint10 [] val"
  "firstNested (AddUint64 key val enc) = False"
  "timeFmt (AddUint64 key val enc) = timeFmt enc"
  by (simp_all add: AddUint64_def Let_def addKey_fields AppendUint10_dst [of "_ @ _"])

lemma AddUintptr_fields:
  "bytes (AddUintptr key val enc) =
     bytes enc @ separator enc @ key_text key @ ''0x'' @ AppendUint16 [] val"
  "firstNested (AddUintptr key val enc) = False"
  "timeFmt (AddUintptr key val enc) = timeFmt enc"
  by (simp_all add: AddUintptr_def Let_def addKey_fields AppendUint16_dst [of "_ @ _"])

lemma AddFloat64_fields:
  "bytes (AddFloat64 L key val enc) =
     bytes enc @ separator enc @ key_text key @ AppendFloat L val"
  "firstNested (AddFloat64 L key val enc) = False"
  "timeFmt (AddFloat64 L key val enc) = timeFmt enc"
  by (simp_all add: AddFloat64_def Let_def addKey_fields)

lemma AddObject_fields:
  "bytes (fst (AddObject L key obj enc)) =
     bytes enc @ separator enc @ key_text key @ Sprintf_plus_v L obj"
  "firstNested (fst (AddObject L key obj enc)) = False"
  "timeFmt (fst (AddObject L key obj enc)) = timeFmt enc"
  by (simp_all add: AddObject_def AddString_fields)

lemma AddMarshaler_fields:
  "bytes (fst (AddMarshaler key obj enc)) =
     bytes (fst (obj ((addKey key enc)\<lparr>firstNested := True,
                        bytes := bytes (addKey key enc) @ ''{''\<rparr>))) @ ''}''"
  "firstNested (fst (AddMarshaler key obj enc)) = False"
  "timeFmt (fst (AddMarshaler key obj enc)) =
     timeFmt (fst (obj ((addKey key enc)\<lparr>firstNested := True,
                          bytes := bytes (addKey key enc) @ ''{''\<rparr>)))"
  "snd (AddMarshaler key obj enc) =
     snd (obj ((addKey key enc)\<lparr>firstNested := True,
                 bytes := bytes (addKey key enc) @ ''{''\<rparr>))"
  by (simp_all add: AddMarshaler_def Let_def split: prod.split)

lemma fields_text_Cons:
  "fields_text L (c # cs) =
     key_text (call_key c) @ value_text L c @ (if cs = [] then [] else '' '' @ fields_text L cs)"
  by (cases cs) simp_all

lemma invoke_accumulated:
  "fst (invoke L c enc) = accumulated L [c] enc"
  "invoke_all L cs enc = accumulated L cs enc"
proof (induction L c enc and L cs enc rule: invoke_invoke_all.induct)
  case (8 L key cs r enc)
  let ?e = "(addKey key enc)\<lparr>firstNested := True, bytes := bytes (addKey key enc) @ ''{''\<rparr>"
  have "invoke_all L cs ?e = accumulated L cs ?e" by (rule 8)
  then show ?case
    by (simp add: accumulated_def AddMarshaler_def Let_def separator_def addKey_fields)
next
  case (12 L c cs enc)
  then show ?case
    by (simp add: accumulated_def fields_text_Cons separator_def key_text_nonempty)
qed (simp_all add: accumulated_def AddString_fields AddBool_fields AddInt64_fields AddInt_def
       AddUint_def AddUint64_fields AddUintptr_fields AddFloat64_fields AddObject_fields)

lemmas eval_defs =
  key_text_def Sprintf_key_def key_color_def key_sum_def go_rem_def signed_modulo_int_def
  AppendInt_def AppendUint10_def AppendUint16_def AppendBool_def digit_char_def
  format_decimal.simps format_hex.simps separator_def empty_encoder_def sample_lib_def

section \<open>Properties of the store, the pool and the renderer\<close>

lemma pool_assign: "pool (assign p f w) = pool w"
  by (simp add: assign_def)

lemma deref_assign_same: "p < length (heap w) \<Longrightarrow> deref (assign p f w) p = f (deref w p)"
  by (simp add: assign_def deref_def)

lemma deref_assign_other: "q \<noteq> p \<Longrightarrow> deref (assign p f w) q = deref w q"
  by (simp add: assign_def deref_def)

lemma deref_pool_update: "deref (w\<lparr>pool := ps\<rparr>) q = deref w q"
  by (simp add: deref_def)

lemma length_heap_assign: "length (heap (assign p f w)) = length (heap w)"
  by (simp add: assign_def)

lemma assign_assign:
  "p < length (heap w) \<Longrightarrow> assign p f (assign p g w) = assign p (\<lambda>e. f (g e)) w"
  by (simp add: assign_def)

lemma in_set_remove_nth: "x \<in> set (take i xs @ drop (Suc i) xs) \<Longrightarrow> x \<in> set xs"
  by (auto dest: in_set_takeD in_set_dropD)

lemma textPool_Get_cases:
  assumes "textPool_Get ch w = (p, w1)"
  obtains (fresh) "p = length (heap w)"
      "w1 = w\<lparr>heap := heap w @ [\<lparr>bytes = [], timeFmt = [], firstNested = False\<rparr>]\<rparr>"
    | (pooled) i where "i < length (pool w)" "p = pool w ! i"
      "w1 = w\<lparr>pool := take i (pool w) @ drop (Suc i) (pool w)\<rparr>"
  using assms
  by (auto simp: textPool_Get_def textPool_New_def split: option.splits if_splits)

lemma textPool_Get_frame:
  assumes "b < length (heap w)" and "b \<notin> set (pool w)" and "textPool_Get ch w = (p, w1)"
  shows "p \<noteq> b \<and> b < length (heap w1) \<and> b \<notin> set (pool w1) \<and> heap w1 ! b = heap w ! b"
  using assms(3)
proof (cases rule: textPool_Get_cases)
  case fresh
  with assms(1,2) show ?thesis by (simp add: nth_append)
next
  case (pooled i)
  have "b \<notin> set (take i (pool w) @ drop (Suc i) (pool w))"
    using assms(2) in_set_remove_nth by fast
  moreover have "pool w ! i \<in> set (pool w)" using pooled(1) by simp
  ultimately show ?thesis using pooled assms(1,2) by auto
qed

lemma nth_notin_remove_nth:
  assumes "distinct xs" and "i < length xs"
  shows "xs ! i \<notin> set (take i xs @ drop (Suc i) xs) \<and> distinct (take i xs @ drop (Suc i) xs)"
proof -
  have "distinct (take i xs @ xs ! i # drop (Suc i) xs)"
    using assms by (simp only: id_take_nth_drop [symmetric])
  then show ?thesis by auto
qed

lemma textPool_Get_valid:
  assumes "pool_valid w" and "textPool_Get ch w = (p, w1)"
  shows "live w1 p \<and> pool_valid w1"
  using assms(2)
proof (cases rule: textPool_Get_cases)
  case fresh
  have "\<And>q. q \<in> set (pool w) \<Longrightarrow> q < length (heap w)"
    using assms(1) by (simp add: pool_valid_def list_all_iff)
  then have "length (heap w) \<notin> set (pool w)" and "\<And>q. q \<in> set (pool w) \<Longrightarrow> q < Suc (length (heap w))"
    by (fastforce, simp add: less_SucI)
  with fresh assms(1) show ?thesis by (simp add: pool_valid_def list_all_iff live_def)
next
  case (pooled i)
  have all: "\<And>q. q \<in> set (pool w) \<Longrightarrow> q < length (heap w)"
    using assms(1) by (simp add: pool_valid_def list_all_iff)
  have "\<And>q. q \<in> set (take i (pool w) @ drop (Suc i) (pool w)) \<Longrightarrow> q < length (heap w)"
    using all in_set_remove_nth by fast
  moreover have "pool w ! i \<in> set (pool w)" using pooled(1) by simp
  moreover have "pool w ! i \<notin> set (take i (pool w) @ drop (Suc i) (pool w))
      \<and> distinct (take i (pool w) @ drop (Suc i) (pool w))"
    using assms(1) pooled(1) by (intro nth_notin_remove_nth) (simp_all add: pool_valid_def)
  ultimately show ?thesis using pooled all by (simp add: pool_valid_def list_all_iff live_def)
qed

lemma addLevel_eq: "addLevel Z final lvl = final\<lparr>bytes := bytes final @ level_tag Z lvl\<rparr>"
  by (simp add: addLevel_def level_tag_def AppendInt_dst [of "bytes final"])

lemma addTime_eq:
  "addTime L enc final t =
     final\<lparr>bytes := bytes final
       @ (if timeFmt enc = [] then [] else '' '' @ AppendFormat L t (timeFmt enc))\<rparr>"
  by (simp add: addTime_def Let_def)

lemma addMessage_eq:
  "addMessage final msg =
     final\<lparr>bytes := bytes final
       @ (if msg = [] then []
          else '' '' @ msg @ replicate (25 - RuneCountInString msg) CHR '' '')\<rparr>"
  by (simp add: addMessage_def Sprintf_pad25_def Let_def)

lemma WriteEntry_Some:
  assumes "textPool_Get ch w = (final, w1)" and "final < length (heap w1)" and "enc \<noteq> final"
  shows "WriteEntry L Z ch enc (Some write) msg lvl t (w, s) =
     (let line = entry_line L Z (deref w1 enc) msg lvl t;
          r = write line s
      in (write_result (fst (fst r)) (snd (fst r)) line,
          Free final (assign final (\<lambda>f. f\<lparr>bytes := line\<rparr>) w1), snd r))"
  using assms
  by (simp add: WriteEntry_def Let_def addLevel_eq addTime_eq addMessage_eq truncate_enc_def
      assign_assign deref_assign_other deref_assign_same length_heap_assign entry_line_def
      write_result_def split: prod.splits)

lemma WriteEntry_live:
  assumes "pool_valid w" and "live w enc"
  shows "WriteEntry L Z ch enc (Some write) msg lvl t (w, s) =
     (let line = entry_line L Z (deref w enc) msg lvl t;
          r = write line s
      in (write_result (fst (fst r)) (snd (fst r)) line,
          Free (fst (textPool_Get ch w))
            (assign (fst (textPool_Get ch w)) (\<lambda>f. f\<lparr>bytes := line\<rparr>) (snd (textPool_Get ch w))),
          snd r))"
proof -
  obtain final w1 where get: "textPool_Get ch w = (final, w1)" by (cases "textPool_Get ch w")
  have "final < length (heap w1)"
    using textPool_Get_valid [OF assms(1) get] by (simp add: live_def)
  moreover have "enc \<noteq> final \<and> deref w1 enc = deref w enc"
    using textPool_Get_frame [OF _ _ get, of enc] assms(2) by (auto simp: live_def deref_def)
  ultimately show ?thesis
    using WriteEntry_Some [OF get, of enc L Z "write" msg lvl t s] get by simp
qed

lemma WriteEntry_frame:
  assumes "live w b"
  shows "deref (fst (snd (WriteEntry L Z ch enc sink msg lvl t (w, s)))) b = deref w b
       \<and> live (fst (snd (WriteEntry L Z ch enc sink msg lvl t (w, s)))) b"
proof (cases sink)
  case None
  then show ?thesis using assms by (simp add: WriteEntry_def)
next
  case (Some wr)
  obtain final w1 where get: "textPool_Get ch w = (final, w1)" by (cases "textPool_Get ch w")
  have "b \<noteq> final \<and> b < length (heap w1) \<and> b \<notin> set (pool w1) \<and> deref w1 b = deref w b"
    using textPool_Get_frame [OF _ _ get, of b] assms by (auto simp: live_def deref_def)
  then show ?thesis
    using Some get
    by (simp add: WriteEntry_def Let_def deref_assign_other pool_assign Free_def live_def
        textPool_Put_def deref_pool_update length_heap_assign split: prod.splits)
qed

subsection \<open>The level tag\<close>

lemma digit_char_decimal: "d < 10 \<Longrightarrow> digit_char d \<in> set ''0123456789''"
proof -
  assume "d < 10"
  then have "d \<in> {0, 1, 2, 3, 4, 5, 6, 7, 8, 9}" by auto
  then show ?thesis by (auto simp: digit_char_def)
qed

lemma format_decimal_digits: "set (format_decimal n) \<subseteq> set ''0123456789''"
proof (induction n rule: format_decimal.induct)
  case (1 n)
  show ?case
  proof (cases "n < 10")
    case True
    then show ?thesis
      using digit_char_decimal [of n] by (simp add: format_decimal.simps [of n])
  next
    case False
    have "n mod 10 < 10" by simp
    then have "digit_char (n mod 10) \<in> set ''0123456789''" by (rule digit_char_decimal)
    with False 1 show ?thesis by (simp add: format_decimal.simps [of n])
  qed
qed

lemma AppendInt_plain:
  "ESC \<notin> set (AppendInt [] i) \<and> CHR ''['' \<notin> set (AppendInt [] i) \<and> CHR '']'' \<notin> set (AppendInt [] i)"
  using format_decimal_digits [of "unat i"] format_decimal_digits [of "unat (- i)"]
  by (auto simp: AppendInt_def ESC_def)

subsection \<open>The width of a padded message\<close>

lemma utf8_size_cases:
  "utf8_size b = 0 \<and> \<not> b < 0x80 \<or> utf8_size b = 1 \<and> b < 0x80 \<or> utf8_size b = 2 \<and> \<not> b < 0x80
   \<or> utf8_size b = 3 \<and> \<not> b < 0x80 \<or> utf8_size b = 4 \<and> \<not> b < 0x80"
  by (simp add: utf8_size_def)

lemma rune_width_alt:
  "rune_width c rest =
     (if utf8_size (of_char c) = 2 \<and> 1 \<le> length rest \<and> second_ok c rest then 2
      else if utf8_size (of_char c) = 3 \<and> 2 \<le> length rest \<and> second_ok c rest
              \<and> continuation (rest ! 1) then 3
      else if utf8_size (of_char c) = 4 \<and> 3 \<le> length rest \<and> second_ok c rest
              \<and> continuation (rest ! 1) \<and> continuation (rest ! 2) then 4
      else 1)"
  using utf8_size_cases [of "of_char c"]
  by (elim disjE conjE) (auto simp: rune_width_def Let_def second_ok_def Suc_le_eq)

lemma rune_width_le: "rune_width c rest - 1 \<le> length rest"
  by (simp add: rune_width_alt)

lemma rune_width_spaces:
  "rune_width c (rest @ replicate n CHR '' '') = rune_width c rest"
proof -
  let ?sp = "replicate n CHR '' ''"
  have at0: "rest = [] \<Longrightarrow> \<not> second_ok c (rest @ ?sp) \<or> n = 0"
    by (cases n) (simp_all add: second_ok_def accept_lo_def)
  have in0: "rest \<noteq> [] \<Longrightarrow> second_ok c (rest @ ?sp) = second_ok c rest"
    by (simp add: second_ok_def nth_append)
  have at1: "length rest = 1 \<Longrightarrow> 2 \<le> length rest + n \<Longrightarrow> \<not> continuation ((rest @ ?sp) ! 1)"
    by (simp add: nth_append continuation_def)
  have in1: "2 \<le> length rest \<Longrightarrow> (rest @ ?sp) ! 1 = rest ! 1"
    by (simp add: nth_append)
  have at2: "length rest = 2 \<Longrightarrow> 3 \<le> length rest + n \<Longrightarrow> \<not> continuation ((rest @ ?sp) ! 2)"
    by (simp add: nth_append continuation_def)
  have in2: "3 \<le> length rest \<Longrightarrow> (rest @ ?sp) ! 2 = rest ! 2"
    by (simp add: nth_append)
  have "length rest = 0 \<or> length rest = 1 \<or> length rest = 2 \<or> 3 \<le> length rest"
    by linarith
  then consider "rest = []" | "length rest = 1" | "length rest = 2" | "3 \<le> length rest"
    by auto
  then show ?thesis
  proof cases
    case 1
    then show ?thesis using at0 by (auto simp: rune_width_alt)
  next
    case 2
    then have "rest \<noteq> []" by auto
    then show ?thesis using 2 in0 at1 by (auto simp: rune_width_alt)
  next
    case 3
    then have "rest \<noteq> []" by auto
    then show ?thesis using 3 in0 in1 at2 by (auto simp: rune_width_alt)
  next
    case 4
    then have "rest \<noteq> []" by auto
    then show ?thesis using 4 in0 in1 in2 by (auto simp: rune_width_alt)
  qed
qed

lemma RuneCountInString_spaces: "RuneCountInString (replicate n CHR '' '') = n"
  by (induction n) (simp_all add: rune_width_alt utf8_size_def)

lemma RuneCountInString_append_spaces:
  "RuneCountInString (msg @ replicate n CHR '' '') = RuneCountInString msg + n"
proof (induction msg rule: RuneCountInString.induct)
  case 1
  show ?case by (simp add: RuneCountInString_spaces)
next
  case (2 c rest)
  have "drop (rune_width c rest - 1) (rest @ replicate n CHR '' '')
      = drop (rune_width c rest - 1) rest @ replicate n CHR '' ''"
    using rune_width_le [of c rest] by simp
  with 2 show ?case by (simp add: rune_width_spaces)
qed

lemma of_char_of_small: "n < 256 \<Longrightarrow> (of_char (char_of n) :: nat) = n"
  by simp

lemma char_of_eq_iff: "char_of (n :: nat) = c \<longleftrightarrow> n mod 256 = of_char c"
proof
  assume "char_of n = c"
  then have "(of_char (char_of n) :: nat) = of_char c" by simp
  then show "n mod 256 = of_char c" by simp
next
  assume "n mod 256 = of_char c"
  then have "char_of (n mod 256) = char_of (of_char c :: nat)" by simp
  then show "char_of n = c" by simp
qed

lemma continuation_char_of: "continuation (char_of (0x80 + (n :: nat) mod 64))"
proof -
  have "n mod 64 < 64" by simp
  then have "0x80 + n mod 64 < 256" by linarith
  then have "(of_char (char_of (0x80 + n mod 64)) :: nat) = 0x80 + n mod 64"
    by (rule of_char_of_small)
  then show ?thesis by (simp add: continuation_def)
qed

lemma rune_width_utf8_char:
  assumes "valid_scalar cp"
  shows "rune_width (hd (utf8_char cp)) (tl (utf8_char cp) @ rest) = length (utf8_char cp)"
proof -
  consider (a) "cp < 0x80" | (b) "0x80 \<le> cp" "cp < 0x800" | (c) "0x800 \<le> cp" "cp < 0x10000"
    | (d) "0x10000 \<le> cp" "cp < 0x110000"
  proof -
    have "cp < 0x110000" using assms by (auto simp: valid_scalar_def)
    then show ?thesis using that by linarith
  qed
  then show ?thesis
  proof cases
    case a
    then show ?thesis by (simp add: utf8_char_def rune_width_alt utf8_size_def)
  next
    case b
    let ?l = "0xC0 + cp div 64"
    have l: "0xC2 \<le> ?l \<and> ?l < 0xE0" using b by linarith
    then have lc: "(of_char (char_of ?l) :: nat) = ?l" by (intro of_char_of_small) linarith
    have s: "(of_char (char_of (0x80 + cp mod 64)) :: nat) = 0x80 + cp mod 64"
      by (intro of_char_of_small) simp
    have "utf8_size ?l = 2" using l by (simp add: utf8_size_def)
    moreover have "second_ok (char_of ?l) (char_of (0x80 + cp mod 64) # rest)"
      using l by (simp add: second_ok_def lc s accept_lo_def accept_hi_def)
    ultimately show ?thesis using b by (simp add: utf8_char_def rune_width_alt lc)
  next
    case c
    let ?l = "0xE0 + cp div 4096"
    have l: "0xE0 \<le> ?l \<and> ?l < 0xF0" using c by linarith
    then have lc: "(of_char (char_of ?l) :: nat) = ?l" by (intro of_char_of_small) linarith
    have s: "(of_char (char_of (0x80 + cp div 64 mod 64)) :: nat) = 0x80 + cp div 64 mod 64"
      by (intro of_char_of_small) simp
    have lo: "?l = 0xE0 \<Longrightarrow> 0x20 \<le> cp div 64 mod 64"
      using c by (simp; linarith?)
    have hi: "cp div 64 mod 64 < 0x20" if "?l = 0xED"
    proof -
      from that have "cp div (64 * 64) = 13" by simp
      then have q: "cp div 64 div 64 = 13" by (simp only: div_mult2_eq)
      have "cp div 4096 * 4096 \<le> cp" by (rule div_times_less_eq_dividend)
      then have "53248 \<le> cp" using that by simp
      moreover have "cp < 4096 + cp div 4096 * 4096" by (rule dividend_less_div_times) simp
      then have "cp < 57344" using that by simp
      ultimately have "cp < 55296" using assms by (auto simp: valid_scalar_def)
      moreover have "cp div 64 * 64 \<le> cp" by (rule div_times_less_eq_dividend)
      ultimately have "cp div 64 < 864" by linarith
      moreover have "cp div 64 = cp div 64 div 64 * 64 + cp div 64 mod 64" by simp
      ultimately show ?thesis using q by linarith
    qed
    have "utf8_size ?l = 3" using l by (simp add: utf8_size_def)
    moreover have "second_ok (char_of ?l) (char_of (0x80 + cp div 64 mod 64) # r)" for r
      using l lo hi by (auto simp: second_ok_def lc s accept_lo_def accept_hi_def)
    ultimately show ?thesis
      using c continuation_char_of [of cp]
      by (simp add: utf8_char_def rune_width_alt lc)
  next
    case d
    let ?l = "0xF0 + cp div 262144"
    have l: "0xF0 \<le> ?l \<and> ?l < 0xF5" using d by linarith
    then have lc: "(of_char (char_of ?l) :: nat) = ?l" by (intro of_char_of_small) linarith
    have s: "(of_char (char_of (0x80 + cp div 4096 mod 64)) :: nat) = 0x80 + cp div 4096 mod 64"
      by (intro of_char_of_small) simp
    have lo: "?l = 0xF0 \<Longrightarrow> 0x10 \<le> cp div 4096 mod 64"
      using d by (simp; linarith?)
    have hi: "cp div 4096 mod 64 < 0x10" if "?l = 0xF4"
    proof -
      from that have "cp div (4096 * 64) = 4" by simp
      then have q: "cp div 4096 div 64 = 4" by (simp only: div_mult2_eq)
      have "cp div 4096 * 4096 \<le> cp" by (rule div_times_less_eq_dividend)
      then have "cp div 4096 < 272" using d by linarith
      moreover have "cp div 4096 = cp div 4096 div 64 * 64 + cp div 4096 mod 64" by simp
      ultimately show ?thesis using q by linarith
    qed
    have "utf8_size ?l = 4" using l by (simp add: utf8_size_def)
    moreover have "second_ok (char_of ?l) (char_of (0x80 + cp div 4096 mod 64) # r)" for r
      using l lo hi by (auto simp: second_ok_def lc s accept_lo_def accept_hi_def)
    ultimately show ?thesis
      using d continuation_char_of [of cp] continuation_char_of [of "cp div 64"]
      by (simp add: utf8_char_def rune_width_alt lc)
  qed
qed

lemma utf8_char_nonempty: "utf8_char cp \<noteq> []"
  by (simp add: utf8_char_def)

lemma RuneCountInString_utf8_char:
  assumes "valid_scalar cp"
  shows "RuneCountInString (utf8_char cp @ rest) = Suc (RuneCountInString rest)"
proof -
  obtain c cs where cs: "utf8_char cp = c # cs"
    using utf8_char_nonempty [of cp] by (cases "utf8_char cp") auto
  have "rune_width c (cs @ rest) = Suc (length cs)"
    using rune_width_utf8_char [OF assms, of rest] cs by simp
  then show ?thesis by (simp add: cs)
qed

lemma RuneCountInString_utf8_encode:
  "list_all valid_scalar cps \<Longrightarrow> RuneCountInString (utf8_encode cps) = length cps"
  by (induction cps) (simp_all add: utf8_encode_def RuneCountInString_utf8_char)

lemma utf8_encode_nonempty: "cps \<noteq> [] \<Longrightarrow> utf8_encode cps \<noteq> []"
  by (cases cps) (simp_all add: utf8_encode_def utf8_char_nonempty)

lemma utf8_encode_hello:
  "utf8_encode [0x68, 0xE9, 0x6C, 0x6C, 0x6F] =
     [CHR ''h'', CHR 0xC3, CHR 0xA9, CHR ''l'', CHR ''l'', CHR ''o'']"
  by (simp add: utf8_encode_def utf8_char_def char_of_eq_iff)

subsection \<open>A new encoder\<close>

lemma pool_valid_assign: "pool_valid (assign p f w) = pool_valid w"
  by (simp add: pool_valid_def assign_def)

lemma live_assign: "live (assign p f w) q = live w q"
  by (simp add: live_def assign_def)

lemma NewColorEncoder_default:
  assumes "pool_valid w" and "NewColorEncoder ch [] w = (enc, w1)"
  shows "live w1 enc \<and> pool_valid w1 \<and> bytes (deref w1 enc) = []
       \<and> timeFmt (deref w1 enc) = RFC3339"
proof -
  obtain p w' where get: "textPool_Get ch w = (p, w')" by (cases "textPool_Get ch w")
  have "live w' p \<and> pool_valid w'" using textPool_Get_valid [OF assms(1) get] .
  moreover have "enc = p"
    and "w1 = assign p (\<lambda>e. e\<lparr>timeFmt := RFC3339\<rparr>) (assign p truncate_enc w')"
    using assms(2) get by (auto simp: NewColorEncoder_def Let_def)
  ultimately show ?thesis
    by (simp add: live_def pool_assign pool_valid_assign deref_assign_same
        length_heap_assign truncate_enc_def)
qed

lemmas world_defs =
  sample_world_def pool_valid_def live_def deref_def assign_def textPool_Get_def
  textPool_New_def entry_line_def level_tag_def zap_def RFC3339_def LF_def ESC_def
  rune_width_def utf8_size_def incomplete_write_def short_Write_def buffer_Write_def

lemma AddString_user_alice:
  "bytes enc = [] \<Longrightarrow>
   bytes (AddString ''user'' ''alice'' enc) = [ESC] @ ''[37;1muser'' @ [ESC] @ ''[0m=alice''"
  by (simp add: AddString_fields eval_defs)

subsection \<open>Operations on one encoder leave the others alone\<close>

lemma Clone_frame:
  assumes "live w b"
  shows "deref (snd (Clone ch enc w)) b = deref w b \<and> live (snd (Clone ch enc w)) b"
proof -
  obtain p w1 where get: "textPool_Get ch w = (p, w1)" by (cases "textPool_Get ch w")
  have "b \<noteq> p \<and> b < length (heap w1) \<and> b \<notin> set (pool w1) \<and> deref w1 b = deref w b"
    using textPool_Get_frame [OF _ _ get, of b] assms by (auto simp: live_def deref_def)
  then show ?thesis
    using get
    by (simp add: Clone_def Let_def deref_assign_other pool_assign live_def length_heap_assign)
qed

lemma Clone_copy:
  assumes "pool_valid w" and "live w enc" and "Clone ch enc w = (clone, w')"
  shows "clone \<noteq> enc \<and> deref w' clone = deref w enc \<and> live w' clone \<and> pool_valid w'"
proof -
  obtain p w1 where get: "textPool_Get ch w = (p, w1)" by (cases "textPool_Get ch w")
  have p: "live w1 p \<and> pool_valid w1" using textPool_Get_valid [OF assms(1) get] .
  have enc: "enc \<noteq> p \<and> deref w1 enc = deref w enc"
    using textPool_Get_frame [OF _ _ get, of enc] assms(2) by (auto simp: live_def deref_def)
  have "clone = p" using assms(3) get by (auto simp: Clone_def Let_def)
  moreover have "w' = assign p (\<lambda>c. c\<lparr>firstNested := firstNested (deref w enc)\<rparr>)
      (assign p (\<lambda>c. c\<lparr>timeFmt := timeFmt (deref w enc)\<rparr>)
        (assign p (\<lambda>c. c\<lparr>bytes := bytes c @ bytes (deref w enc)\<rparr>)
          (assign p truncate_enc w1)))"
    using assms(3) get enc by (auto simp: Clone_def Let_def deref_assign_other)
  ultimately show ?thesis
    using p enc
    by (simp add: live_def pool_assign pool_valid_assign deref_assign_same length_heap_assign
        truncate_enc_def)
qed

lemma perform_effect:
  assumes "live (fst ws) b" and "(enc, op) \<noteq> (b, Op_Free)"
  shows "deref (fst (perform L Z enc op ws)) b = own_effect L b [(enc, op)] (deref (fst ws) b)
       \<and> live (fst (perform L Z enc op ws)) b"
proof (cases op)
  case (Op_Add c)
  show ?thesis
  proof (cases "enc = b")
    case True
    then show ?thesis
      using assms(1) Op_Add by (simp add: deref_assign_same live_assign live_def [of "fst ws"])
  next
    case False
    then have "b \<noteq> enc" by simp
    then show ?thesis using assms(1) Op_Add by (simp add: deref_assign_other live_assign)
  qed
next
  case (Op_Clone ch)
  then show ?thesis using Clone_frame [OF assms(1), of ch enc] by simp
next
  case (Op_WriteEntry ch sink msg lvl t)
  then show ?thesis
    using WriteEntry_frame [OF assms(1), of L Z ch enc sink msg lvl t "snd ws"] by simp
next
  case Op_Free
  then have "enc \<noteq> b" using assms(2) by simp
  then show ?thesis
    using assms(1) Op_Free by (simp add: Free_def textPool_Put_def live_def deref_def)
qed

lemma own_effect_Cons:
  "own_effect L b ((enc, op) # rest) e = own_effect L b rest (own_effect L b [(enc, op)] e)"
  by (cases op) simp_all

lemma run_independent:
  assumes "live (fst ws) b" and "(b, Op_Free) \<notin> set ops"
  shows "deref (fst (run L Z ops ws)) b = own_effect L b ops (deref (fst ws) b)
       \<and> live (fst (run L Z ops ws)) b"
  using assms
proof (induction ops arbitrary: ws)
  case Nil
  then show ?case by simp
next
  case (Cons x ops)
  obtain enc op where x: "x = (enc, op)" by (cases x)
  have step: "deref (fst (perform L Z enc op ws)) b = own_effect L b [(enc, op)] (deref (fst ws) b)
       \<and> live (fst (perform L Z enc op ws)) b"
    using Cons.prems x by (intro perform_effect) auto
  have "deref (fst (run L Z ops (perform L Z enc op ws))) b
        = own_effect L b ops (deref (fst (perform L Z enc op ws)) b)
      \<and> live (fst (run L Z ops (perform L Z enc op ws))) b"
    using Cons.prems step by (intro Cons.IH) auto
  then show ?case
    using step x by (simp add: own_effect_Cons [of L b enc op ops])
qed

section \<open>The claims\<close>

text \<open>
  C1. For every key (shorter than \<open>2^55\<close> bytes, so that the sum of its bytes fits
  the 64-bit \<open>int\<close>), every accumulation operation computes the colour index as the
  sum of the byte values of the key modulo 7, plus 1; the index is in [1,7] and depends
  on the key alone; the key is emitted between the escape sequence \<open>ESC[3<index>;1m\<close>
  and the reset \<open>ESC[0m\<close>, followed by \<open>=\<close> and the text of the value.
\<close>

theorem addKey_color:
  assumes "length (call_key c) < 2 ^ 55"
  shows "sint (key_color (call_key c)) = int (sum_list (map of_char (call_key c)) mod 7 + 1)
       \<and> 1 \<le> sint (key_color (call_key c)) \<and> sint (key_color (call_key c)) \<le> 7
       \<and> bytes (fst (invoke L c enc)) =
           bytes enc @ separator enc @ [ESC] @ ''[3''
           @ [digit_char (sum_list (map of_char (call_key c)) mod 7 + 1)] @ '';1m''
           @ call_key c @ [ESC] @ ''[0m'' @ ''='' @ value_text L c"
proof -
  let ?key = "call_key c"
  have idx: "color_index ?key < 2 ^ 63" by (simp add: color_index_def)
  have "sint (key_color ?key) = int (color_index ?key)"
    using assms idx by (simp add: key_color_small sint_of_nat_small)
  moreover have "bytes (fst (invoke L c enc)) =
      bytes enc @ separator enc @ colored_key ?key @ ''='' @ value_text L c"
    using assms
    by (simp add: invoke_accumulated accumulated_def key_text_def Sprintf_key_small)
  ultimately show ?thesis
    by (simp add: color_index_def colored_key_def)
qed

theorem addKey_color_witness:
  "length (call_key (Call_AddString ''user'' ''alice'' :: string KeyValue_call)) < 2 ^ 55
   \<and> sint (key_color ''user'') = 7
   \<and> bytes (fst (invoke sample_lib (Call_AddString ''user'' ''alice'') empty_encoder)) =
       [ESC] @ ''[37;1muser'' @ [ESC] @ ''[0m=alice''"
  using addKey_color [of "Call_AddString ''user'' ''alice''" sample_lib empty_encoder]
  by (simp add: eval_defs)

text \<open>
  C2, as amended. In \<open>WriteEntry\<close> (through \<open>addLevel\<close>) each of the six recognised
  levels produces a fixed 6-character bracketed abbreviation between an escape sequence
  for its colour and the reset: 32 for debug, 34 for info, 33 for warn and 31 for
  error, panic and fatal alike. The colours of debug, info, warn and error differ from
  one another; panic and fatal have the colour of error. Any other level value
  produces its decimal representation, with no escape byte and no bracket.
\<close>

theorem addLevel_tags:
  assumes "levels_distinct Z"
  shows "bytes (addLevel Z final (DebugLevel Z)) = bytes final @ [ESC] @ ''[32;1m'' @ ''[DEBG]'' @ [ESC] @ ''[0m''
       \<and> bytes (addLevel Z final (InfoLevel Z)) = bytes final @ [ESC] @ ''[34;1m'' @ ''[INFO]'' @ [ESC] @ ''[0m''
       \<and> bytes (addLevel Z final (WarnLevel Z)) = bytes final @ [ESC] @ ''[33;1m'' @ ''[WARN]'' @ [ESC] @ ''[0m''
       \<and> bytes (addLevel Z final (ErrorLevel Z)) = bytes final @ [ESC] @ ''[31;1m'' @ ''[ERRO]'' @ [ESC] @ ''[0m''
       \<and> bytes (addLevel Z final (PanicLevel Z)) = bytes final @ [ESC] @ ''[31;1m'' @ ''[PANC]'' @ [ESC] @ ''[0m''
       \<and> bytes (addLevel Z final (FatalLevel Z)) = bytes final @ [ESC] @ ''[31;1m'' @ ''[FATA]'' @ [ESC] @ ''[0m''
       \<and> (lvl \<notin> {DebugLevel Z, InfoLevel Z, WarnLevel Z, ErrorLevel Z, PanicLevel Z, FatalLevel Z}
            \<longrightarrow> bytes (addLevel Z final lvl) = bytes final @ AppendInt [] (scast lvl)
              \<and> ESC \<notin> set (AppendInt [] (scast lvl))
              \<and> CHR ''['' \<notin> set (AppendInt [] (scast lvl))
              \<and> CHR '']'' \<notin> set (AppendInt [] (scast lvl)))"
  using assms AppendInt_plain [of "scast lvl"]
  by (auto simp: levels_distinct_def addLevel_def AppendInt_dst [of "bytes final"])

theorem addLevel_tags_witness:
  "levels_distinct zap
   \<and> bytes (addLevel zap empty_encoder (InfoLevel zap)) = [ESC] @ ''[34;1m[INFO]'' @ [ESC] @ ''[0m''
   \<and> bytes (addLevel zap empty_encoder 7) = ''7''
   \<and> bytes (addLevel zap empty_encoder (- 3)) = ''-3''"
  using addLevel_tags [of zap empty_encoder 7] addLevel_tags [of zap empty_encoder "- 3"]
  by (simp add: levels_distinct_def zap_def eval_defs)

text \<open>
  C2, as stated, asks for distinct colours for debug, info, warn, error and the fatal
  levels: the escape sequences that open the tags of error and fatal are the same.
\<close>

theorem level_colors_counterexample:
  "\<not> distinct (map (\<lambda>lvl. take 7 (bytes (addLevel zap empty_encoder lvl)))
        [DebugLevel zap, InfoLevel zap, WarnLevel zap, ErrorLevel zap, FatalLevel zap])"
  by (simp add: addLevel_def zap_def empty_encoder_def)

text \<open>
  C3. For every sequence of accumulation calls on one encoder, the buffer grows by the
  fields with exactly one space between two neighbours; the first field has no space
  before it when the buffer is empty, nor has the first field of a nested frame (the
  text of a nested object starts right after its brace), and it has one space before it
  when the buffer holds earlier fields.
\<close>

theorem fields_separated:
  "bytes (invoke_all L cs enc) =
     bytes enc @ (if cs = [] then [] else separator enc @ fields_text L cs)
   \<and> bytes (invoke_all L cs (enc\<lparr>bytes := []\<rparr>)) = fields_text L cs
   \<and> separator (enc\<lparr>bytes := []\<rparr>) = []
   \<and> separator (enc\<lparr>firstNested := True\<rparr>) = []
   \<and> separator (enc\<lparr>bytes := b # bs, firstNested := False\<rparr>) = '' ''"
  by (cases cs) (simp_all add: invoke_accumulated accumulated_def separator_def)

theorem fields_separated_witness:
  "bytes (invoke_all sample_lib
      [Call_AddString ''a'' ''1'',
       Call_AddMarshaler ''o'' [Call_AddBool ''b'' True, Call_AddInt64 ''n'' (- 5)] None,
       Call_AddUintptr ''p'' 255] empty_encoder) =
     [ESC] @ ''[37;1ma'' @ [ESC] @ ''[0m=1 '' @ [ESC] @ ''[37;1mo'' @ [ESC] @ ''[0m={''
     @ [ESC] @ ''[31;1mb'' @ [ESC] @ ''[0m=true '' @ [ESC] @ ''[36;1mn'' @ [ESC]
     @ ''[0m=-5} '' @ [ESC] @ ''[31;1mp'' @ [ESC] @ ''[0m=0xff''"
  using fields_separated [of sample_lib
      "[Call_AddString ''a'' ''1'',
        Call_AddMarshaler ''o'' [Call_AddBool ''b'' True, Call_AddInt64 ''n'' (- 5)] None,
        Call_AddUintptr ''p'' 255]" empty_encoder]
  by (simp add: eval_defs)

text \<open>
  C4. When the sink is not nil, the assembly encoder taken from the pool is put back
  into the pool before \<open>WriteEntry\<close> returns, whatever the sink answers (success, an
  error, a short count). When the sink reports no error and a count that differs from
  the length of the line, \<open>WriteEntry\<close> returns the error "incomplete write".
\<close>

theorem WriteEntry_short_write:
  "pool (fst (snd (WriteEntry L Z ch enc (Some wr) msg lvl t (w, s))))
     = fst (textPool_Get ch w) # pool (snd (textPool_Get ch w))
   \<and> (pool_valid w \<longrightarrow> live w enc \<longrightarrow>
        wr (entry_line L Z (deref w enc) msg lvl t) s = ((n, None), s') \<longrightarrow>
        n \<noteq> of_nat (length (entry_line L Z (deref w enc) msg lvl t)) \<longrightarrow>
        fst (WriteEntry L Z ch enc (Some wr) msg lvl t (w, s))
          = Some (incomplete_write n (of_nat (length (entry_line L Z (deref w enc) msg lvl t)))))"
proof (intro conjI impI)
  show "pool (fst (snd (WriteEntry L Z ch enc (Some wr) msg lvl t (w, s))))
     = fst (textPool_Get ch w) # pool (snd (textPool_Get ch w))"
    by (simp add: WriteEntry_def Let_def Free_def textPool_Put_def pool_assign
        split: prod.splits)
next
  assume "pool_valid w" and "live w enc"
    and "wr (entry_line L Z (deref w enc) msg lvl t) s = ((n, None), s')"
    and "n \<noteq> of_nat (length (entry_line L Z (deref w enc) msg lvl t))"
  then show "fst (WriteEntry L Z ch enc (Some wr) msg lvl t (w, s))
      = Some (incomplete_write n (of_nat (length (entry_line L Z (deref w enc) msg lvl t))))"
    by (simp add: WriteEntry_live Let_def write_result_def)
qed

theorem WriteEntry_short_write_witness:
  "fst (WriteEntry sample_lib zap None 0 (Some short_Write) ''login'' (InfoLevel zap)
        ''now'' (sample_world, [])) =
     Some (errorString ''incomplete write: only wrote 0 of 48 bytes'')
   \<and> pool (fst (snd (WriteEntry sample_lib zap None 0 (Some short_Write) ''login''
        (InfoLevel zap) ''now'' (sample_world, [])))) = [1]"
  using WriteEntry_short_write [of sample_lib zap None 0 short_Write "''login''"
      "InfoLevel zap" "''now''" sample_world "[]" 0 "[]"]
  by (simp add: world_defs eval_defs)

text \<open>
  C5. When the callback of a nested object returns an error, \<open>AddMarshaler\<close> returns
  that very error, and the buffer holds the coloured key, \<open>=\<close>, the opening brace,
  the fields the callback emitted and the closing brace.
\<close>

theorem AddMarshaler_error:
  "snd (AddMarshaler key (\<lambda>e. (f e, Some err)) enc) = Some err
   \<and> snd (AddMarshaler key (\<lambda>e. (invoke_all L cs e, Some err)) enc) = Some err
   \<and> bytes (fst (AddMarshaler key (\<lambda>e. (invoke_all L cs e, Some err)) enc)) =
       bytes enc @ separator enc @ key_text key @ ''{'' @ fields_text L cs @ ''}''"
  by (simp add: AddMarshaler_fields invoke_accumulated accumulated_def separator_def
        addKey_fields)

theorem AddMarshaler_error_witness:
  "snd (AddMarshaler ''o'' (\<lambda>e. (invoke_all sample_lib [Call_AddBool ''b'' True] e,
                                     Some (foreign_error 1))) empty_encoder)
     = Some (foreign_error 1)
   \<and> bytes (fst (AddMarshaler ''o'' (\<lambda>e. (invoke_all sample_lib [Call_AddBool ''b'' True] e,
                                     Some (foreign_error 1))) empty_encoder))
     = [ESC] @ ''[37;1mo'' @ [ESC] @ ''[0m={'' @ [ESC] @ ''[31;1mb'' @ [ESC] @ ''[0m=true}''"
  using AddMarshaler_error [of "''o''" "invoke_all sample_lib [Call_AddBool ''b'' True]"
      "foreign_error 1" empty_encoder sample_lib "[Call_AddBool ''b'' True]"]
  by (simp add: eval_defs)

text \<open>
  C6. \<open>WriteEntry\<close> hands the sink the line of the entry. With a message and fields,
  the line is the level tag, the time after a space when a layout is set, a space, the
  message followed by spaces up to a width of 25 characters (the message itself is
  kept whole, the width is the larger of 25 and its own), a space, the field buffer and
  a line feed. The width is counted in characters, not bytes: a message that is the
  UTF-8 encoding of \<open>n\<close> Unicode characters is followed by \<open>25 - n\<close> spaces (the six
  bytes of \<open>h\<close>, \<open>e\<close> with an acute accent, \<open>llo\<close> by 20), and a byte that is not part
  of a well-formed sequence counts as one character. For a new encoder with the
  default layout that accumulated the string field \<open>user\<close>, \<open>alice\<close>, the level info and
  the message \<open>login\<close>, the sink is given the coloured \<open>[INFO]\<close>, a space, the time in
  the layout RFC3339, a space, \<open>login\<close>, 20 spaces, a space, the coloured key \<open>user\<close>,
  \<open>=alice\<close> and a line feed.
\<close>

theorem WriteEntry_line:
  "(pool_valid w \<longrightarrow> live w enc \<longrightarrow>
      snd (snd (WriteEntry L Z ch enc (Some wr) msg lvl t (w, s)))
        = snd (wr (entry_line L Z (deref w enc) msg lvl t) s)
      \<and> snd (snd (WriteEntry L Z ch enc (Some buffer_Write) msg lvl t (w, out)))
        = out @ entry_line L Z (deref w enc) msg lvl t)
   \<and> (msg \<noteq> [] \<longrightarrow> bytes e \<noteq> [] \<longrightarrow>
        entry_line L Z e msg lvl t =
          level_tag Z lvl
          @ (if timeFmt e = [] then [] else '' '' @ AppendFormat L t (timeFmt e))
          @ '' '' @ Sprintf_pad25 msg @ '' '' @ bytes e @ [LF])
   \<and> take (length msg) (Sprintf_pad25 msg) = msg
   \<and> drop (length msg) (Sprintf_pad25 msg) = replicate (25 - RuneCountInString msg) CHR '' ''
   \<and> RuneCountInString (Sprintf_pad25 msg) = max 25 (RuneCountInString msg)
   \<and> (pool_valid w0 \<longrightarrow> NewColorEncoder ch0 [] w0 = (p, w1) \<longrightarrow>
        WriteEntry L zap ch p (Some buffer_Write) ''login'' (InfoLevel zap) t
            (assign p (AddString ''user'' ''alice'') w1, out)
          = (None,
             fst (snd (WriteEntry L zap ch p (Some buffer_Write) ''login'' (InfoLevel zap) t
                        (assign p (AddString ''user'' ''alice'') w1, out))),
             out @ [ESC] @ ''[34;1m[INFO]'' @ [ESC] @ ''[0m'' @ '' ''
                 @ AppendFormat L t RFC3339 @ '' '' @ ''login'' @ replicate 20 CHR '' ''
                 @ '' '' @ [ESC] @ ''[37;1muser'' @ [ESC] @ ''[0m=alice'' @ [LF]))
   \<and> (list_all valid_scalar cps \<longrightarrow>
        RuneCountInString (utf8_encode cps) = length cps
        \<and> Sprintf_pad25 (utf8_encode cps)
            = utf8_encode cps @ replicate (25 - length cps) CHR '' '')
   \<and> (pool_valid w \<longrightarrow> live w enc \<longrightarrow> cps \<noteq> [] \<longrightarrow> list_all valid_scalar cps \<longrightarrow>
        snd (snd (WriteEntry L Z ch enc (Some buffer_Write) (utf8_encode cps) lvl t (w, out)))
          = out @ level_tag Z lvl
            @ (if timeFmt (deref w enc) = [] then []
               else '' '' @ AppendFormat L t (timeFmt (deref w enc)))
            @ '' '' @ utf8_encode cps @ replicate (25 - length cps) CHR '' ''
            @ (if bytes (deref w enc) = [] then [] else '' '' @ bytes (deref w enc))
            @ [LF])
   \<and> Sprintf_pad25 [CHR ''h'', CHR 0xC3, CHR 0xA9, CHR ''l'', CHR ''l'', CHR ''o'']
        = [CHR ''h'', CHR 0xC3, CHR 0xA9, CHR ''l'', CHR ''l'', CHR ''o'']
          @ replicate 20 CHR '' ''
   \<and> Sprintf_pad25 [CHR 0xE2, CHR 0x82, CHR 0xAC, CHR 0xF0, CHR 0x9F, CHR 0x98, CHR 0x80]
        = [CHR 0xE2, CHR 0x82, CHR 0xAC, CHR 0xF0, CHR 0x9F, CHR 0x98, CHR 0x80]
          @ replicate 23 CHR '' ''
   \<and> Sprintf_pad25 [CHR 0xFF, CHR 0x80, CHR 0xC3] = [CHR 0xFF, CHR 0x80, CHR 0xC3]
          @ replicate 22 CHR '' ''"
proof (intro conjI impI)
  assume "pool_valid w" and "live w enc"
  then show "snd (snd (WriteEntry L Z ch enc (Some wr) msg lvl t (w, s)))
        = snd (wr (entry_line L Z (deref w enc) msg lvl t) s)"
    and "snd (snd (WriteEntry L Z ch enc (Some buffer_Write) msg lvl t (w, out)))
        = out @ entry_line L Z (deref w enc) msg lvl t"
    by (simp_all add: WriteEntry_live Let_def buffer_Write_def)
next
  assume "msg \<noteq> []" and "bytes e \<noteq> []"
  then show "entry_line L Z e msg lvl t =
          level_tag Z lvl
          @ (if timeFmt e = [] then [] else '' '' @ AppendFormat L t (timeFmt e))
          @ '' '' @ Sprintf_pad25 msg @ '' '' @ bytes e @ [LF]"
    by (simp add: entry_line_def Sprintf_pad25_def)
next
  show "take (length msg) (Sprintf_pad25 msg) = msg"
    and "drop (length msg) (Sprintf_pad25 msg) = replicate (25 - RuneCountInString msg) CHR '' ''"
    by (simp_all add: Sprintf_pad25_def)
next
  show "RuneCountInString (Sprintf_pad25 msg) = max 25 (RuneCountInString msg)"
    by (simp add: Sprintf_pad25_def RuneCountInString_append_spaces)
next
  assume valid: "pool_valid w0" and new: "NewColorEncoder ch0 [] w0 = (p, w1)"
  let ?w2 = "assign p (AddString ''user'' ''alice'') w1"
  let ?line = "[ESC] @ ''[34;1m[INFO]'' @ [ESC] @ ''[0m'' @ '' '' @ AppendFormat L t RFC3339
      @ '' '' @ ''login'' @ replicate 20 CHR '' '' @ '' ''
      @ [ESC] @ ''[37;1muser'' @ [ESC] @ ''[0m=alice'' @ [LF]"
  have fresh: "live w1 p \<and> pool_valid w1 \<and> bytes (deref w1 p) = []
      \<and> timeFmt (deref w1 p) = RFC3339"
    using NewColorEncoder_default [OF valid new] .
  then have p: "p < length (heap w1)" by (simp add: live_def)
  have enc: "deref ?w2 p = AddString ''user'' ''alice'' (deref w1 p)"
    using p by (rule deref_assign_same)
  have "bytes (deref ?w2 p) = [ESC] @ ''[37;1muser'' @ [ESC] @ ''[0m=alice''"
    using fresh by (simp add: enc AddString_user_alice)
  moreover have "timeFmt (deref ?w2 p) = RFC3339"
    using fresh by (simp add: enc AddString_fields(3))
  moreover have "RuneCountInString ''login'' = 5"
    by (simp add: rune_width_def utf8_size_def)
  ultimately have line: "entry_line L zap (deref ?w2 p) ''login'' (InfoLevel zap) t = ?line"
    by (simp add: entry_line_def level_tag_def zap_def RFC3339_def)
  have "pool_valid ?w2" and "live ?w2 p"
    using fresh by (simp_all add: pool_valid_assign live_assign)
  then have "WriteEntry L zap ch p (Some buffer_Write) ''login'' (InfoLevel zap) t (?w2, out)
      = (None,
         fst (snd (WriteEntry L zap ch p (Some buffer_Write) ''login'' (InfoLevel zap) t
                    (?w2, out))),
         out @ entry_line L zap (deref ?w2 p) ''login'' (InfoLevel zap) t)"
    by (simp add: WriteEntry_live Let_def buffer_Write_def write_result_def)
  then show "WriteEntry L zap ch p (Some buffer_Write) ''login'' (InfoLevel zap) t (?w2, out)
      = (None,
         fst (snd (WriteEntry L zap ch p (Some buffer_Write) ''login'' (InfoLevel zap) t
                    (?w2, out))),
         out @ ?line)"
    by (simp only: line)
next
  assume "list_all valid_scalar cps"
  then show "RuneCountInString (utf8_encode cps) = length cps"
    and "Sprintf_pad25 (utf8_encode cps)
      = utf8_encode cps @ replicate (25 - length cps) CHR '' ''"
    by (simp_all add: Sprintf_pad25_def RuneCountInString_utf8_encode)
next
  assume "pool_valid w" and "live w enc" and "cps \<noteq> []" and "list_all valid_scalar cps"
  then show "snd (snd (WriteEntry L Z ch enc (Some buffer_Write) (utf8_encode cps) lvl t
                        (w, out)))
          = out @ level_tag Z lvl
            @ (if timeFmt (deref w enc) = [] then []
               else '' '' @ AppendFormat L t (timeFmt (deref w enc)))
            @ '' '' @ utf8_encode cps @ replicate (25 - length cps) CHR '' ''
            @ (if bytes (deref w enc) = [] then [] else '' '' @ bytes (deref w enc))
            @ [LF]"
    by (simp add: WriteEntry_live Let_def buffer_Write_def entry_line_def
        RuneCountInString_utf8_encode utf8_encode_nonempty)
next
  show "Sprintf_pad25 [CHR ''h'', CHR 0xC3, CHR 0xA9, CHR ''l'', CHR ''l'', CHR ''o'']
        = [CHR ''h'', CHR 0xC3, CHR 0xA9, CHR ''l'', CHR ''l'', CHR ''o'']
          @ replicate 20 CHR '' ''"
    and "Sprintf_pad25 [CHR 0xE2, CHR 0x82, CHR 0xAC, CHR 0xF0, CHR 0x9F, CHR 0x98, CHR 0x80]
        = [CHR 0xE2, CHR 0x82, CHR 0xAC, CHR 0xF0, CHR 0x9F, CHR 0x98, CHR 0x80]
          @ replicate 23 CHR '' ''"
    and "Sprintf_pad25 [CHR 0xFF, CHR 0x80, CHR 0xC3] = [CHR 0xFF, CHR 0x80, CHR 0xC3]
          @ replicate 22 CHR '' ''"
    by (simp_all add: Sprintf_pad25_def rune_width_def utf8_size_def accept_lo_def
        accept_hi_def continuation_def)
qed

theorem WriteEntry_line_witness:
  "pool_valid sample_world
   \<and> NewColorEncoder None [] sample_world = (1, snd (NewColorEncoder None [] sample_world))
   \<and> snd (snd (WriteEntry sample_lib zap None 1 (Some buffer_Write) ''login'' (InfoLevel zap)
        ''2016-06-01T12:00:00Z''
        (assign 1 (AddString ''user'' ''alice'') (snd (NewColorEncoder None [] sample_world)),
         [])))
     = [ESC] @ ''[34;1m[INFO]'' @ [ESC] @ ''[0m 2016-06-01T12:00:00Z login''
       @ replicate 20 CHR '' '' @ '' '' @ [ESC] @ ''[37;1muser'' @ [ESC] @ ''[0m=alice''
       @ [LF]
   \<and> live sample_world 0
   \<and> list_all valid_scalar [0x68, 0xE9, 0x6C, 0x6C, 0x6F]
   \<and> snd (snd (WriteEntry sample_lib zap None 0 (Some buffer_Write)
        [CHR ''h'', CHR 0xC3, CHR 0xA9, CHR ''l'', CHR ''l'', CHR ''o''] 7 ''now''
        (sample_world, [])))
     = ''7 now '' @ [CHR ''h'', CHR 0xC3, CHR 0xA9, CHR ''l'', CHR ''l'', CHR ''o'']
       @ replicate 20 CHR '' '' @ [LF]"
proof -
  let ?w1 = "snd (NewColorEncoder None [] sample_world)"
  let ?cps = "[0x68, 0xE9, 0x6C, 0x6C, 0x6F] :: nat list"
  have valid: "pool_valid sample_world"
    by (simp add: pool_valid_def sample_world_def)
  have new: "NewColorEncoder None [] sample_world = (1, ?w1)"
    by (simp add: NewColorEncoder_def Let_def textPool_Get_def textPool_New_def
        sample_world_def)
  have live: "live sample_world 0"
    by (simp add: live_def sample_world_def)
  have cps: "list_all valid_scalar ?cps"
    by (simp add: valid_scalar_def)
  note line = WriteEntry_line [where ?w0.0 = sample_world and ?ch0.0 = None and p = 1
        and ?w1.0 = ?w1 and L = sample_lib and ch = None and out = "[]" and w = sample_world
        and enc = 0 and Z = zap and wr = buffer_Write and s = "[]" and e = empty_encoder
        and cps = ?cps]
  have "WriteEntry sample_lib zap None 1 (Some buffer_Write) ''login'' (InfoLevel zap)
          ''2016-06-01T12:00:00Z'' (assign 1 (AddString ''user'' ''alice'') ?w1, [])
        = (None,
           fst (snd (WriteEntry sample_lib zap None 1 (Some buffer_Write) ''login''
                      (InfoLevel zap) ''2016-06-01T12:00:00Z''
                      (assign 1 (AddString ''user'' ''alice'') ?w1, []))),
           [] @ [ESC] @ ''[34;1m[INFO]'' @ [ESC] @ ''[0m'' @ '' ''
              @ AppendFormat sample_lib ''2016-06-01T12:00:00Z'' RFC3339 @ '' '' @ ''login''
              @ replicate 20 CHR '' '' @ '' '' @ [ESC] @ ''[37;1muser'' @ [ESC]
              @ ''[0m=alice'' @ [LF])"
    using line [where t = "''2016-06-01T12:00:00Z''" and msg = "''login''"
        and lvl = "InfoLevel zap"] valid new
    by blast
  then have scenario: "snd (snd (WriteEntry sample_lib zap None 1 (Some buffer_Write) ''login''
        (InfoLevel zap) ''2016-06-01T12:00:00Z''
        (assign 1 (AddString ''user'' ''alice'') ?w1, [])))
      = [] @ [ESC] @ ''[34;1m[INFO]'' @ [ESC] @ ''[0m'' @ '' ''
              @ AppendFormat sample_lib ''2016-06-01T12:00:00Z'' RFC3339 @ '' '' @ ''login''
              @ replicate 20 CHR '' '' @ '' '' @ [ESC] @ ''[37;1muser'' @ [ESC]
              @ ''[0m=alice'' @ [LF]"
    by (metis snd_conv)
  have "snd (snd (WriteEntry sample_lib zap None 0 (Some buffer_Write) (utf8_encode ?cps) 7
          ''now'' (sample_world, [])))
      = [] @ level_tag zap 7
        @ (if timeFmt (deref sample_world 0) = [] then []
           else '' '' @ AppendFormat sample_lib ''now'' (timeFmt (deref sample_world 0)))
        @ '' '' @ utf8_encode ?cps @ replicate (25 - length ?cps) CHR '' ''
        @ (if bytes (deref sample_world 0) = [] then []
           else '' '' @ bytes (deref sample_world 0))
        @ [LF]"
    using line [where t = "''now''" and msg = "''login''" and lvl = 7] valid live cps
    by blast
  then have accent: "snd (snd (WriteEntry sample_lib zap None 0 (Some buffer_Write)
        [CHR ''h'', CHR 0xC3, CHR 0xA9, CHR ''l'', CHR ''l'', CHR ''o''] 7 ''now''
        (sample_world, [])))
     = ''7 now '' @ [CHR ''h'', CHR 0xC3, CHR 0xA9, CHR ''l'', CHR ''l'', CHR ''o'']
       @ replicate 20 CHR '' '' @ [LF]"
    by (simp add: utf8_encode_hello level_tag_def zap_def sample_world_def deref_def
        empty_encoder_def RFC3339_def sample_lib_def AppendInt_def format_decimal.simps
        digit_char_def)
  show ?thesis using valid new live cps scenario accent by (simp add: sample_lib_def)
qed

text \<open>
  C8. \<open>Clone\<close> of an encoder in use returns another encoder whose buffer, time format
  and flag are those of the original, and leaves the original as it was. Afterwards
  the two share nothing: after any run of operations on any encoders, an instance that
  was not released itself is what the accumulation calls made on it alone make of it;
  so an operation on one of the two never changes the buffer, the time format or the
  flag of the other.
\<close>

theorem Clone_independent:
  assumes "pool_valid w" and "live w enc" and "Clone ch enc w = (clone, w')"
  shows "clone \<noteq> enc
       \<and> bytes (deref w' clone) = bytes (deref w enc)
       \<and> timeFmt (deref w' clone) = timeFmt (deref w enc)
       \<and> firstNested (deref w' clone) = firstNested (deref w enc)
       \<and> deref w' enc = deref w enc
       \<and> ((clone, Op_Free) \<notin> set ops \<longrightarrow>
            deref (fst (run L Z ops (w', s))) clone = own_effect L clone ops (deref w' clone))
       \<and> ((enc, Op_Free) \<notin> set ops \<longrightarrow>
            deref (fst (run L Z ops (w', s))) enc = own_effect L enc ops (deref w' enc))"
proof -
  have copy: "clone \<noteq> enc \<and> deref w' clone = deref w enc \<and> live w' clone \<and> pool_valid w'"
    using assms by (rule Clone_copy)
  have "w' = snd (Clone ch enc w)" using assms(3) by simp
  then have enc: "deref w' enc = deref w enc \<and> live w' enc"
    using Clone_frame [OF assms(2), of ch enc] by simp
  have "(clone, Op_Free) \<notin> set ops \<longrightarrow>
      deref (fst (run L Z ops (w', s))) clone = own_effect L clone ops (deref w' clone)"
    using run_independent [of "(w', s)" clone ops L Z] copy by simp
  moreover have "(enc, Op_Free) \<notin> set ops \<longrightarrow>
      deref (fst (run L Z ops (w', s))) enc = own_effect L enc ops (deref w' enc)"
    using run_independent [of "(w', s)" enc ops L Z] enc by simp
  ultimately show ?thesis using copy enc by simp
qed

theorem Clone_independent_witness:
  "pool_valid sample_world \<and> live sample_world 0
   \<and> Clone None 0 sample_world = (1, snd (Clone None 0 sample_world))
   \<and> deref (snd (Clone None 0 sample_world)) 1 = empty_encoder
   \<and> bytes (deref (fst (run sample_lib zap sample_ops (snd (Clone None 0 sample_world), []))) 1)
       = [ESC] @ ''[31;1mb'' @ [ESC] @ ''[0m=true''"
  using Clone_independent [where w = sample_world and enc = 0 and ch = None and clone = 1
      and w' = "snd (Clone None 0 sample_world)" and ops = sample_ops and L = sample_lib
      and Z = zap and s = "[]"]
  by (simp add: Clone_def Let_def truncate_enc_def world_defs eval_defs sample_ops_def
      AddBool_fields del: run.simps)

text \<open>
  C9. \<open>WriteEntry\<close> does not change the field encoder: for every encoder in use,
  message, level, time and sink (nil or not), whatever the call returns, the buffer,
  the time format and the flag of the encoder are what they were, and the encoder is
  not in the pool afterwards.
\<close>

theorem WriteEntry_keeps_encoder:
  assumes "live w enc"
  shows "deref (fst (snd (WriteEntry L Z ch enc sink msg lvl t (w, s)))) enc = deref w enc
       \<and> enc \<notin> set (pool (fst (snd (WriteEntry L Z ch enc sink msg lvl t (w, s)))))"
  using WriteEntry_frame [OF assms, of L Z ch enc sink msg lvl t s]
  by (simp add: live_def)

theorem WriteEntry_keeps_encoder_witness:
  "live sample_world 0
   \<and> deref (fst (snd (WriteEntry sample_lib zap None 0 (Some short_Write) ''login''
        (InfoLevel zap) ''T'' (sample_world, [])))) 0 = empty_encoder
   \<and> 0 \<notin> set (pool (fst (snd (WriteEntry sample_lib zap None 0 (Some short_Write) ''login''
        (InfoLevel zap) ''T'' (sample_world, [])))))"
  using WriteEntry_keeps_encoder [of sample_world 0 sample_lib zap None "Some short_Write"
      "''login''" "InfoLevel zap" "''T''" "[]"]
  by (simp add: live_def sample_world_def deref_def)

text \<open>
  C10. \<open>AddObject\<close> returns a nil error for every key and object. Of the accumulation
  operations only \<open>AddMarshaler\<close> and \<open>AddObject\<close> have an error in their result, and
  an error that is not nil can only come out of \<open>AddMarshaler\<close>.
\<close>

theorem AddObject_nil:
  "snd (AddObject L key obj enc) = None
   \<and> (snd (invoke L c enc) = None
        \<or> (\<exists>key cs. c = Call_AddMarshaler key cs (snd (invoke L c enc))))"
  by (cases c) (simp_all add: AddObject_def AddMarshaler_fields)

theorem AddObject_nil_witness:
  "snd (AddObject sample_lib ''k'' ''v'' empty_encoder) = None
   \<and> snd (invoke sample_lib (Call_AddObject ''k'' ''v'') empty_encoder) = None"
  using AddObject_nil [of sample_lib "''k''" "''v''" empty_encoder "Call_AddObject ''k'' ''v''"]
  by simp

end
